theory Spec2Isabelle
  imports Main "HOL-Library.Word"
begin

unbundle bit_operations_syntax

section \<open>The single-file variant (qimcifa.cpp): wide-integer helpers\<close>

text \<open>
  In the single-file variant \<^verbatim>\<open>QBCAPPOW\<close> is 12, so \<^verbatim>\<open>bitCapInt\<close> is Boost's
  unsigned, unchecked \<^verbatim>\<open>cpp_int_backend<1 << 12, 1 << 12, ...>\<close>: a 4096-bit
  unsigned integer whose arithmetic wraps around.
\<close>

type_synonym bitCapInt = "4096 word"

text \<open>
  \<^verbatim>\<open>uipow\<close>: the loop \<^verbatim>\<open>for (;;) { if (b & 1U) result *= b; e >>= 1U; if (!e) break; b *= b; }\<close>
  with the loop variables as arguments.
\<close>

function uipow_loop :: "bitCapInt \<Rightarrow> bitCapInt \<Rightarrow> bitCapInt \<Rightarrow> bitCapInt" where
  "uipow_loop result b e =
     (let result1 = (if b AND 1 \<noteq> 0 then result * b else result);
          e1 = drop_bit 1 e
      in if e1 = 0 then result1 else uipow_loop result1 (b * b) e1)"
  by pat_completeness auto
termination
proof (relation "measure (\<lambda>(result, b, e). unat e)")
  show "wf (measure (\<lambda>(result, b, e). unat e))"
    by simp
next
  fix result b e :: bitCapInt and result1 e1 :: bitCapInt
  assume "e1 = drop_bit 1 e" and "e1 \<noteq> 0"
  then have "unat e \<noteq> 0"
    by (auto simp: unat_eq_0)
  moreover have "unat (drop_bit 1 e) = unat e div 2"
    using unat_drop_bit_eq [of 1 e] by (simp add: drop_bit_eq_div)
  ultimately show "((result1, b * b, e1), (result, b, e)) \<in> measure (\<lambda>(result, b, e). unat e)"
    using \<open>e1 = drop_bit 1 e\<close> by simp
qed

declare uipow_loop.simps [simp del]

definition uipow :: "bitCapInt \<Rightarrow> bitCapInt \<Rightarrow> bitCapInt" where
  "uipow base exp = uipow_loop 1 base exp"

text \<open>
  \<^verbatim>\<open>gcd\<close>: the recursive Euclidean algorithm. It is defined as a partial function, so
  that a call that does not return would be the value \<open>None\<close>; that it always returns is
  a theorem below, not a property of the definition.
\<close>

partial_function (option) gcd_rec :: "bitCapInt \<Rightarrow> bitCapInt \<Rightarrow> bitCapInt option" where
  "gcd_rec n1 n2 = (if n2 = 0 then Some n1 else gcd_rec n2 (n1 mod n2))"

text \<open>
  Run-time failures of the C++ code that the total functions of HOL would hide: an integer
  division by zero, and \<^verbatim>\<open>back()\<close> or \<^verbatim>\<open>pop_back()\<close> on an empty vector.
\<close>

datatype error = DivisionByZero | EmptyVector

text \<open>
  \<^verbatim>\<open>continued_fraction_step\<close> updates numerator and denominator through pointers and
  returns the integer part; the model returns all three.
\<close>

definition continued_fraction_step ::
  "bitCapInt \<Rightarrow> bitCapInt \<Rightarrow> error + (bitCapInt \<times> bitCapInt \<times> bitCapInt)" where
  "continued_fraction_step numerator denominator =
     (if denominator = 0 then Inl DivisionByZero
      else let intPart = numerator div denominator;
               partDenominator = numerator - intPart * denominator;
               partNumerator = denominator
           in Inr (intPart, partNumerator, partDenominator))"

text \<open>
  The loop of \<^verbatim>\<open>calc_continued_fraction\<close>,
  \<^verbatim>\<open>for (int i = size - 1; i > 0; i--) { temp = denominators[i] * approxDenom + approxNumer; ... }\<close>,
  by recursion on the counter \<open>i\<close>.
\<close>

fun cf_fold :: "bitCapInt list \<Rightarrow> nat \<Rightarrow> bitCapInt \<Rightarrow> bitCapInt \<Rightarrow> bitCapInt \<times> bitCapInt" where
  "cf_fold denominators 0 approxNumer approxDenom = (approxNumer, approxDenom)"
| "cf_fold denominators (Suc j) approxNumer approxDenom =
     (let temp = denominators ! Suc j * approxDenom + approxNumer
      in cf_fold denominators j approxDenom temp)"

text \<open>
  \<^verbatim>\<open>calc_continued_fraction\<close> reads \<^verbatim>\<open>denominators.back()\<close> first. On an empty vector
  that is undefined behaviour in C++; the model makes it the value \<open>None\<close>.
\<close>

definition calc_continued_fraction :: "bitCapInt list \<Rightarrow> (bitCapInt \<times> bitCapInt) option" where
  "calc_continued_fraction denominators =
     (if denominators = [] then None
      else Some (cf_fold denominators (length denominators - 1) 1 (last denominators)))"

text \<open>
  The \<^verbatim>\<open>do { ... } while ((denominator > 0) && (approxDenom < toFactor))\<close> loop of the general
  path in \<^verbatim>\<open>main\<close>. The result is the term list together with the last convergent.
\<close>

function cf_loop ::
  "bitCapInt \<Rightarrow> bitCapInt \<Rightarrow> bitCapInt \<Rightarrow> bitCapInt list
     \<Rightarrow> error + (bitCapInt list \<times> bitCapInt \<times> bitCapInt)" where
  "cf_loop toFactor numerator denominator denominators =
     (case continued_fraction_step numerator denominator of
        Inl e \<Rightarrow> Inl e
      | Inr (intPart, numerator1, denominator1) \<Rightarrow>
          let denominators1 = denominators @ [intPart]
          in (case calc_continued_fraction denominators1 of
                None \<Rightarrow> Inl EmptyVector
              | Some (approxNumer, approxDenom) \<Rightarrow>
                  if 0 < denominator1 \<and> approxDenom < toFactor
                  then cf_loop toFactor numerator1 denominator1 denominators1
                  else Inr (denominators1, approxNumer, approxDenom)))"
  by pat_completeness auto
termination
proof (relation "measure (\<lambda>(toFactor, numerator, denominator, denominators). unat denominator)")
  show "wf (measure (\<lambda>(toFactor, numerator, denominator, denominators). unat denominator))"
    by simp
next
  fix toFactor numerator denominator :: bitCapInt and denominators :: "bitCapInt list"
    and step :: "bitCapInt \<times> bitCapInt \<times> bitCapInt"
    and intPart numerator1 denominator1 :: bitCapInt
    and rest :: "bitCapInt \<times> bitCapInt" and denominators1 :: "bitCapInt list"
  assume step: "continued_fraction_step numerator denominator = Inr step"
    and parts: "(intPart, rest) = step" "(numerator1, denominator1) = rest"
  from step parts have nz: "denominator \<noteq> 0"
    and d1: "denominator1 = numerator - numerator div denominator * denominator"
    by (auto simp: continued_fraction_step_def Let_def split: if_splits)
  have "denominator1 = numerator mod denominator"
    unfolding d1 by (simp add: minus_div_mult_eq_mod)
  moreover have "unat (numerator mod denominator) < unat denominator"
    using nz by (simp add: unat_mod unat_gt_0)
  ultimately show "((toFactor, numerator1, denominator1, denominators1),
                    (toFactor, numerator, denominator, denominators))
      \<in> measure (\<lambda>(toFactor, numerator, denominator, denominators). unat denominator)"
    by simp
qed

declare cf_loop.simps [simp del]

text \<open>
  The period candidate \<open>r\<close>: run the loop from \<^verbatim>\<open>numerator = qubitPower\<close>,
  \<^verbatim>\<open>denominator = y\<close> and an empty term list, drop the last term with \<^verbatim>\<open>pop_back()\<close>, and
  take \<open>y\<close> when no term is left, the denominator of the convergent otherwise.
\<close>

definition period_candidate :: "bitCapInt \<Rightarrow> bitCapInt \<Rightarrow> bitCapInt \<Rightarrow> error + bitCapInt" where
  "period_candidate toFactor qubitPower y =
     (case cf_loop toFactor qubitPower y [] of
        Inl e \<Rightarrow> Inl e
      | Inr (denominators, approxNumer, approxDenom) \<Rightarrow>
          if denominators = [] then Inl EmptyVector
          else let denominators1 = butlast denominators
               in if length denominators1 = 0 then Inr y
                  else (case calc_continued_fraction denominators1 of
                          None \<Rightarrow> Inl EmptyVector
                        | Some (approxNumer1, r) \<Rightarrow> Inr r))"

section \<open>The distributed variant (src/qimcifa.cpp)\<close>

text \<open>
  \<^verbatim>\<open>mainBody\<close> and \<^verbatim>\<open>waitForSuccess\<close> are templates over the wide integer type
  \<^verbatim>\<open>bitCapInt\<close> (\<^verbatim>\<open>uint64_t\<close>, or an unsigned unchecked Boost integer of 128 to 2048
  bits): the model is polymorphic in the word type \<open>'a word\<close>. Values of type
  \<^verbatim>\<open>unsigned\<close> and \<^verbatim>\<open>size_t\<close> (primes, counts, indices) are natural numbers, converted
  with \<open>of_nat\<close> where C++ promotes them to \<^verbatim>\<open>bitCapInt\<close>. The build configuration of the
  source is \<^verbatim>\<open>IS_RSA_SEMIPRIME 1\<close>, \<^verbatim>\<open>IS_DISTRIBUTED 1\<close>, \<^verbatim>\<open>TRIAL_DIVISION_LEVEL_OVERRIDE 0\<close>.
\<close>

subsection \<open>Small-prime table and trial-division level\<close>

definition trialDivisionPrimes :: "nat list" where
  "trialDivisionPrimes = [
     2, 3, 5, 7, 11, 13, 17, 19, 23, 29, 31, 37, 41, 43, 47, 53, 59, 61, 67, 71, 73, 79, 83,
     89, 97, 101, 103, 107, 109, 113, 127, 131, 137, 139, 149, 151, 157, 163, 167, 173, 179,
     181, 191, 193, 197, 199, 211, 223, 227, 229, 233, 239, 241, 251, 257, 263, 269, 271, 277,
     281, 283, 293, 307, 311, 313, 317, 331, 337, 347, 349, 353, 359, 367, 373, 379, 383, 389,
     397, 401, 409, 419, 421, 431, 433, 439, 443, 449, 457, 461, 463, 467, 479, 487, 491, 499,
     503, 509, 521, 523, 541, 547, 557, 563, 569, 571, 577, 587, 593, 599, 601, 607, 613, 617,
     619, 631, 641, 643, 647, 653, 659, 661, 673, 677, 683, 691, 701, 709, 719, 727, 733, 739,
     743, 751, 757, 761, 769, 773, 787, 797, 809, 811, 821, 823, 827, 829, 839, 853, 857, 859,
     863, 877, 881, 883, 887, 907, 911, 919, 929, 937, 941, 947, 953, 967, 971, 977, 983, 991,
     997, 1009, 1013, 1019, 1021, 1031, 1033, 1039, 1049, 1051, 1061, 1063, 1069, 1087, 1091,
     1093, 1097, 1103, 1109, 1117, 1123, 1129, 1151, 1153, 1163, 1171, 1181, 1187, 1193, 1201,
     1213, 1217, 1223, 1229, 1231, 1237, 1249, 1259, 1277, 1279, 1283, 1289, 1291, 1297, 1301,
     1303, 1307, 1319, 1321, 1327, 1361, 1367, 1373, 1381, 1399, 1409, 1423, 1427, 1429, 1433,
     1439, 1447, 1451, 1453, 1459, 1471, 1481, 1483, 1487, 1489, 1493, 1499, 1511, 1523, 1531,
     1543, 1549, 1553, 1559, 1567, 1571, 1579, 1583, 1597, 1601, 1607, 1609, 1613, 1619, 1621,
     1627, 1637, 1657, 1663, 1667, 1669, 1693, 1697, 1699, 1709, 1721, 1723, 1733, 1741, 1747,
     1753, 1759, 1777, 1783, 1787, 1789, 1801, 1811, 1823, 1831, 1847, 1861, 1867, 1871, 1873,
     1877, 1879, 1889, 1901, 1907, 1913, 1931, 1933, 1949, 1951, 1973, 1979, 1987, 1993, 1997,
     1999, 2003, 2011, 2017, 2027, 2029, 2039, 2053, 2063, 2069, 2081, 2083, 2087, 2089, 2099,
     2111, 2113, 2129, 2131, 2137, 2141, 2143, 2153, 2161, 2179, 2203, 2207, 2213, 2221, 2237,
     2239, 2243, 2251, 2267, 2269, 2273, 2281, 2287, 2293, 2297, 2309, 2311, 2333, 2339, 2341,
     2347, 2351, 2357, 2371, 2377, 2381, 2383, 2389, 2393, 2399, 2411, 2417, 2423, 2437, 2441,
     2447, 2459, 2467, 2473, 2477, 2503, 2521, 2531, 2539, 2543, 2549, 2551, 2557, 2579, 2591,
     2593, 2609, 2617, 2621, 2633, 2647, 2657, 2659, 2663, 2671, 2677, 2683, 2687, 2689, 2693,
     2699, 2707, 2711, 2713, 2719, 2729, 2731, 2741, 2749, 2753, 2767, 2777, 2789, 2791, 2797,
     2801, 2803, 2819, 2833, 2837, 2843, 2851, 2857, 2861, 2879, 2887, 2897, 2903, 2909, 2917,
     2927, 2939, 2953, 2957, 2963, 2969, 2971, 2999, 3001, 3011, 3019, 3023, 3037, 3041, 3049,
     3061, 3067, 3079, 3083, 3089, 3109, 3119, 3121, 3137, 3163, 3167, 3169, 3181, 3187, 3191,
     3203, 3209, 3217, 3221, 3229, 3251, 3253, 3257, 3259, 3271, 3299, 3301, 3307, 3313, 3319,
     3323, 3329, 3331, 3343, 3347, 3359, 3361, 3371, 3373, 3389, 3391, 3407, 3413, 3433, 3449,
     3457, 3461, 3463, 3467, 3469, 3491, 3499, 3511, 3517, 3527, 3529, 3533, 3539, 3541, 3547,
     3557, 3559, 3571, 3581, 3583, 3593, 3607, 3613, 3617, 3623, 3631, 3637, 3643, 3659, 3671,
     3673, 3677, 3691, 3697, 3701, 3709, 3719, 3727, 3733, 3739, 3761, 3767, 3769, 3779, 3793,
     3797, 3803, 3821, 3823, 3833, 3847, 3851, 3853, 3863, 3877, 3881, 3889, 3907, 3911, 3917,
     3919, 3923, 3929, 3931, 3943, 3947, 3967, 3989, 4001, 4003, 4007, 4013, 4019, 4021, 4027,
     4049, 4051, 4057, 4073, 4079, 4091, 4093, 4099, 4111, 4127, 4129, 4133, 4139, 4153, 4157,
     4159, 4177, 4201, 4211, 4217, 4219, 4229, 4231, 4241, 4243, 4253, 4259, 4261, 4271, 4273,
     4283, 4289, 4297, 4327, 4337, 4339, 4349, 4357, 4363, 4373, 4391, 4397, 4409, 4421, 4423,
     4441, 4447, 4451, 4457, 4463, 4481, 4483, 4493, 4507, 4513, 4517, 4519, 4523, 4547, 4549,
     4561, 4567, 4583, 4591, 4597, 4603, 4621, 4637, 4639, 4643, 4649, 4651, 4657, 4663, 4673,
     4679, 4691, 4703, 4721, 4723, 4729, 4733, 4751, 4759, 4783, 4787, 4789, 4793, 4799, 4801,
     4813, 4817, 4831, 4861, 4871, 4877, 4889, 4903, 4909, 4919, 4931, 4933, 4937, 4943, 4951,
     4957, 4967, 4969, 4973, 4987, 4993, 4999, 5003, 5009, 5011, 5021, 5023, 5039, 5051, 5059,
     5077, 5081, 5087, 5099, 5101, 5107, 5113, 5119, 5147, 5153, 5167, 5171, 5179, 5189, 5197,
     5209, 5227, 5231, 5233, 5237, 5261, 5273, 5279, 5281, 5297, 5303, 5309, 5323, 5333, 5347,
     5351, 5381, 5387, 5393, 5399, 5407, 5413, 5417, 5419, 5431, 5437, 5441, 5443, 5449, 5471,
     5477, 5479, 5483, 5501, 5503, 5507, 5519, 5521, 5527, 5531, 5557, 5563, 5569, 5573, 5581,
     5591, 5623, 5639, 5641, 5647, 5651, 5653, 5657, 5659, 5669, 5683, 5689, 5693, 5701, 5711,
     5717, 5737, 5741, 5743, 5749, 5779, 5783, 5791, 5801, 5807, 5813, 5821, 5827, 5839, 5843,
     5849, 5851, 5857, 5861, 5867, 5869, 5879, 5881, 5897, 5903, 5923, 5927, 5939, 5953, 5981,
     5987, 6007, 6011, 6029, 6037, 6043, 6047, 6053, 6067, 6073, 6079, 6089, 6091, 6101, 6113,
     6121, 6131, 6133, 6143, 6151, 6163, 6173, 6197, 6199, 6203, 6211, 6217, 6221, 6229, 6247,
     6257, 6263, 6269, 6271, 6277, 6287, 6299, 6301, 6311, 6317, 6323, 6329, 6337, 6343, 6353,
     6359, 6361, 6367, 6373, 6379, 6389, 6397, 6421, 6427, 6449, 6451, 6469, 6473, 6481, 6491,
     6521, 6529, 6547, 6551, 6553, 6563, 6569, 6571, 6577, 6581, 6599, 6607, 6619, 6637, 6653,
     6659, 6661, 6673, 6679, 6689, 6691, 6701, 6703, 6709, 6719, 6733, 6737, 6761, 6763, 6779,
     6781, 6791, 6793, 6803, 6823, 6827, 6829, 6833, 6841, 6857, 6863, 6869, 6871, 6883, 6899,
     6907, 6911, 6917, 6947, 6949, 6959, 6961, 6967, 6971, 6977, 6983, 6991, 6997, 7001, 7013,
     7019, 7027, 7039, 7043, 7057, 7069, 7079, 7103, 7109, 7121, 7127, 7129, 7151, 7159, 7177,
     7187, 7193, 7207, 7211, 7213, 7219, 7229, 7237, 7243, 7247, 7253, 7283, 7297, 7307, 7309,
     7321, 7331, 7333, 7349, 7351, 7369, 7393, 7411, 7417, 7433, 7451, 7457, 7459, 7477, 7481,
     7487, 7489, 7499, 7507, 7517, 7523, 7529, 7537, 7541, 7547, 7549, 7559, 7561, 7573, 7577,
     7583, 7589, 7591, 7603, 7607, 7621, 7639, 7643, 7649, 7669, 7673, 7681, 7687, 7691, 7699,
     7703, 7717, 7723, 7727, 7741, 7753, 7757, 7759, 7789, 7793, 7817, 7823, 7829, 7841, 7853,
     7867, 7873, 7877, 7879, 7883, 7901, 7907, 7919]"

text \<open>
  \<^verbatim>\<open>pickTrialDivisionLevel\<close>: the table for up to 70 bits. Above 70 bits the source returns
  \<^verbatim>\<open>(unsigned)(exp(1.69 + 0.0971 * qubitCount) + 0.5)\<close>, a double-precision computation that
  has no counterpart here: the model has no value for it.
\<close>

definition pickTrialDivisionLevel :: "nat \<Rightarrow> nat option" where
  "pickTrialDivisionLevel qubitCount =
     (if qubitCount \<le> 58 then Some 59
      else if qubitCount \<le> 60 then Some 191
      else if qubitCount \<le> 62 then Some 193
      else if qubitCount \<le> 64 then Some 199
      else if qubitCount \<le> 66 then Some 211
      else if qubitCount \<le> 68 then Some 229
      else if qubitCount \<le> 70 then Some 233
      else None)"

text \<open>
  The bit count that \<^verbatim>\<open>main\<close> derives from the number to factor: the number of shifts
  that empty \<^verbatim>\<open>toFactor >> 1\<close>, plus one unless \<^verbatim>\<open>toFactor\<close> is a power of two.
\<close>

function shiftCount :: "nat \<Rightarrow> nat \<Rightarrow> nat" where
  "shiftCount p qubitCount = (if p \<noteq> 0 then shiftCount (p div 2) (qubitCount + 1) else qubitCount)"
  by pat_completeness auto
termination
  by (relation "measure (\<lambda>(p, qubitCount). p)") auto

declare shiftCount.simps [simp del]

definition qubitCountOf :: "nat \<Rightarrow> nat" where
  "qubitCountOf toFactor =
     (let qubitCount = shiftCount (toFactor div 2) 0
      in if \<not> (toFactor \<noteq> 0 \<and> toFactor AND (toFactor - 1) = 0) then qubitCount + 1 else qubitCount)"

subsection \<open>Range partitioner\<close>

text \<open>
  In semiprime mode the full range comes from \<^verbatim>\<open>primeDict\<close> or from the bit count.
  \<^verbatim>\<open>1ULL << n\<close> is undefined for \<open>n \<ge> 64\<close>, which includes the wrapped
  \<^verbatim>\<open>primeBits - 2U\<close> for \<^verbatim>\<open>primeBits < 2\<close>: the model has no value there.
\<close>

definition primeDict :: "nat \<Rightarrow> nat list" where
  "primeDict primeBits =
     (if primeBits = 16 then [16411, 131071]
      else if primeBits = 28 then [67108879, 536870909]
      else if primeBits = 32 then [1073741827, 8589934583]
      else [])"

definition primeBitsOf :: "nat \<Rightarrow> nat" where
  "primeBitsOf qubitCount = (qubitCount + 1) div 2"

definition fullMinBaseOf :: "nat \<Rightarrow> nat option" where
  "fullMinBaseOf qubitCount =
     (let primeBits = primeBitsOf qubitCount
      in if length (primeDict primeBits) \<noteq> 0 then Some (primeDict primeBits ! 0)
         else if primeBits < 2 \<or> 64 \<le> primeBits - 2 then None
         else Some (push_bit (primeBits - 2) 1 OR 1))"

definition fullMaxBaseOf :: "nat \<Rightarrow> nat option" where
  "fullMaxBaseOf qubitCount =
     (let primeBits = primeBitsOf qubitCount
      in if length (primeDict primeBits) \<noteq> 0 then Some (primeDict primeBits ! 1)
         else if 64 \<le> primeBits + 1 then None
         else Some (push_bit (primeBits + 1) 1 - 1))"

text \<open>
  The loop that shrinks \<^verbatim>\<open>fullRange\<close> prime by prime,
  \<^verbatim>\<open>while (currentPrime <= TRIAL_DIVISION_LEVEL) { fullRange *= currentPrime - 1U; fullRange /= currentPrime; primeIndex++; if (primeIndex >= size) break; currentPrime = trialDivisionPrimes[primeIndex]; }\<close>,
  with the loop variables as arguments; it returns \<^verbatim>\<open>fullRange\<close> and \<^verbatim>\<open>primeIndex\<close>.
\<close>

function shrinkLoop :: "nat \<Rightarrow> nat \<Rightarrow> nat \<Rightarrow> 'a::len word \<Rightarrow> 'a word \<times> nat" where
  "shrinkLoop L currentPrime primeIndex fullRange =
     (if currentPrime \<le> L
      then let fullRange1 = fullRange * of_nat (currentPrime - 1);
               fullRange2 = fullRange1 div of_nat currentPrime;
               primeIndex1 = primeIndex + 1
           in if primeIndex1 \<ge> length trialDivisionPrimes then (fullRange2, primeIndex1)
              else shrinkLoop L (trialDivisionPrimes ! primeIndex1) primeIndex1 fullRange2
      else (fullRange, primeIndex))"
  by pat_completeness auto
termination
  by (relation "measure (\<lambda>(L, currentPrime, primeIndex, fullRange).
        length trialDivisionPrimes - primeIndex)") auto

declare shrinkLoop.simps [simp del]

text \<open>
  \<^verbatim>\<open>fullRange = fullMaxBase + 1U - fullMinBase\<close>, shrunk; then \<^verbatim>\<open>primeIndex\<close> is clamped to
  the last index of the table. The worker closure captures this \<^verbatim>\<open>primeIndex\<close> by value.
\<close>

definition shrunkRange :: "nat \<Rightarrow> 'a::len word \<Rightarrow> 'a word \<Rightarrow> 'a word \<times> nat" where
  "shrunkRange L fullMinBase fullMaxBase =
     (let (fullRange, primeIndex) = shrinkLoop L 2 0 (fullMaxBase + 1 - fullMinBase)
      in (fullRange,
          if primeIndex \<ge> length trialDivisionPrimes then length trialDivisionPrimes - 1
          else primeIndex))"

definition fullRangeOf :: "nat \<Rightarrow> 'a::len word \<Rightarrow> 'a word \<Rightarrow> 'a word" where
  "fullRangeOf L fullMinBase fullMaxBase = fst (shrunkRange L fullMinBase fullMaxBase)"

definition primeIndexOf :: "nat \<Rightarrow> 'a::len word \<Rightarrow> 'a word \<Rightarrow> nat" where
  "primeIndexOf L fullMinBase fullMaxBase = snd (shrunkRange L fullMinBase fullMaxBase)"

definition nodeRangeOf :: "'a::len word \<Rightarrow> nat \<Rightarrow> 'a word" where
  "nodeRangeOf fullRange nodeCount = (fullRange + of_nat nodeCount - 1) div of_nat nodeCount"

definition nodeMinOf :: "'a::len word \<Rightarrow> 'a word \<Rightarrow> nat \<Rightarrow> 'a word" where
  "nodeMinOf fullMinBase nodeRange nodeId = fullMinBase + nodeRange * of_nat nodeId"

definition nodeMaxOf :: "'a::len word \<Rightarrow> 'a word \<Rightarrow> 'a word" where
  "nodeMaxOf nodeMin nodeRange = nodeMin + nodeRange"

definition threadRangeOf :: "nat \<Rightarrow> 'a::len word \<Rightarrow> 'a word \<Rightarrow> 'a word" where
  "threadRangeOf cpuCount nodeMin nodeMax =
     (of_nat cpuCount + nodeMax - (nodeMin - 1)) div of_nat cpuCount"

text \<open>
  The loop that rounds \<^verbatim>\<open>threadMin\<close> down to a multiple of each prime in turn:
  \<^verbatim>\<open>threadMin = (threadMin / currentPrime) * currentPrime\<close>, same walk over the table.
\<close>

function alignLoop :: "nat \<Rightarrow> nat \<Rightarrow> nat \<Rightarrow> 'a::len word \<Rightarrow> 'a word" where
  "alignLoop L currentPrime primeIndex threadMin =
     (if currentPrime \<le> L
      then let threadMin1 = (threadMin div of_nat currentPrime) * of_nat currentPrime;
               primeIndex1 = primeIndex + 1
           in if primeIndex1 \<ge> length trialDivisionPrimes then threadMin1
              else alignLoop L (trialDivisionPrimes ! primeIndex1) primeIndex1 threadMin1
      else threadMin)"
  by pat_completeness auto
termination
  by (relation "measure (\<lambda>(L, currentPrime, primeIndex, threadMin).
        length trialDivisionPrimes - primeIndex)") auto

declare alignLoop.simps [simp del]

text \<open>
  The body of the loop over \<^verbatim>\<open>cpu\<close>. Its result is the pair of arguments
  \<^verbatim>\<open>(threadMin, threadMax)\<close> handed to the worker.
\<close>

record 'w threadBounds =
  workerMin :: 'w
  workerMax :: 'w

definition threadBoundsOf :: "nat \<Rightarrow> 'a::len word \<Rightarrow> 'a word \<Rightarrow> nat \<Rightarrow> 'a word threadBounds" where
  "threadBoundsOf L nodeMin threadRange cpu =
     (let threadMin0 = (nodeMin + threadRange * of_nat cpu) OR 1;
          threadMax0 = threadMin0 + threadRange;
          threadMin1 = alignLoop L 2 0 threadMin0;
          threadMin2 = (threadMin1 OR 1) + 2
      in \<lparr>workerMin = threadMin2, workerMax = threadMax0\<rparr>)"

text \<open>
  \<^verbatim>\<open>mainBody\<close> from the full bounds up to the launch of the workers, for a given
  \<^verbatim>\<open>cpuCount\<close> (the hardware concurrency): the bounds of the threads
  \<open>0, \<dots>, cpuCount - 1\<close>. The division by \<^verbatim>\<open>cpuCount\<close> fails when the hardware
  concurrency is reported as 0.
\<close>

definition mainBodyWorkers ::
  "nat \<Rightarrow> 'a::len word \<Rightarrow> 'a word \<Rightarrow> nat \<Rightarrow> nat \<Rightarrow> nat \<Rightarrow> error + 'a word threadBounds list" where
  "mainBodyWorkers L fullMinBase fullMaxBase nodeCount nodeId cpuCount =
     (let fullRange = fullRangeOf L fullMinBase fullMaxBase
      in if (of_nat nodeCount :: 'a word) = 0 then Inl DivisionByZero
         else let nodeRange = nodeRangeOf fullRange nodeCount;
                  nodeMin = nodeMinOf fullMinBase nodeRange nodeId;
                  nodeMax = nodeMaxOf nodeMin nodeRange
              in if (of_nat cpuCount :: 'a word) = 0 then Inl DivisionByZero
                 else let threadRange = threadRangeOf cpuCount nodeMin nodeMax
                      in Inr (map (threadBoundsOf L nodeMin threadRange) [0..<cpuCount]))"

subsection \<open>Random base sampler\<close>

text \<open>
  The worker computes \<^verbatim>\<open>range = threadMax - (threadMin + 1U)\<close> and draws with 32-bit words
  when \<^verbatim>\<open>range >= (1ULL << 32U)\<close>, with 64-bit words otherwise.
\<close>

definition workerRange :: "'a::len word threadBounds \<Rightarrow> 'a word" where
  "workerRange b = workerMax b - (workerMin b + 1)"

definition wordSizeOf :: "'a::len word \<Rightarrow> nat" where
  "wordSizeOf rng = (if unat rng \<ge> 2 ^ 32 then 32 else 64)"

text \<open>
  \<^verbatim>\<open>baseDist\<close>: the upper bounds of the uniform distributions, one per word of
  \<^verbatim>\<open>range\<close> (least significant first, then reversed) when the word is narrower than
  \<^verbatim>\<open>bitCapInt\<close>, a single one otherwise, in which case \<^verbatim>\<open>WORD_SIZE\<close> is set to 0. The cast
  \<^verbatim>\<open>(WORD)range\<close> keeps the low bits. The result is the list of bounds and \<^verbatim>\<open>WORD_SIZE\<close>.
  The source's loop is \<^verbatim>\<open>while (range) { ...; range >>= WORD_SIZE; }\<close> with \<^verbatim>\<open>WORD_SIZE\<close> 32 or
  64; the test \<open>0 < WORD_SIZE\<close> only makes the recursion total for other arguments.
  \<^verbatim>\<open>BITCAPINT_SIZE\<close> is \<^verbatim>\<open>sizeof(bitCapInt) << 3\<close>: 64 for \<^verbatim>\<open>uint64_t\<close>, and above 64 for
  every wider instance, so that the comparison with the length of the word type decides
  as the source does.
\<close>

function distLoop :: "nat \<Rightarrow> 'a::len word \<Rightarrow> 'a word list" where
  "distLoop WORD_SIZE rng =
     (if rng \<noteq> 0 \<and> 0 < WORD_SIZE
      then take_bit WORD_SIZE rng # distLoop WORD_SIZE (drop_bit WORD_SIZE rng)
      else [])"
  by pat_completeness auto
termination
proof (relation "measure (\<lambda>(WORD_SIZE, rng). unat rng)")
  show "wf (measure (\<lambda>(WORD_SIZE, rng :: 'a word). unat rng))"
    by simp
next
  fix WORD_SIZE :: nat and rng :: "'a word"
  assume "rng \<noteq> 0 \<and> 0 < WORD_SIZE"
  then have "0 < unat rng"
    by (simp add: unat_gt_0)
  moreover have "(1::nat) < 2 ^ WORD_SIZE"
    using \<open>rng \<noteq> 0 \<and> 0 < WORD_SIZE\<close> one_less_power [of "2::nat" WORD_SIZE] by simp
  ultimately have "unat rng div 2 ^ WORD_SIZE < unat rng"
    by (intro div_less_dividend)
  moreover have "unat (drop_bit WORD_SIZE rng) = unat rng div 2 ^ WORD_SIZE"
    using unat_drop_bit_eq [of WORD_SIZE rng] by (simp add: drop_bit_eq_div)
  ultimately show "((WORD_SIZE, drop_bit WORD_SIZE rng), (WORD_SIZE, rng))
      \<in> measure (\<lambda>(WORD_SIZE, rng). unat rng)"
    by simp
qed

declare distLoop.simps [simp del]

definition baseDist :: "nat \<Rightarrow> 'a::len word \<Rightarrow> 'a word list \<times> nat" where
  "baseDist WORD_SIZE rng =
     (if WORD_SIZE < LENGTH('a) then (rev (distLoop WORD_SIZE rng), WORD_SIZE)
      else ([take_bit WORD_SIZE rng], 0))"

text \<open>
  A sequence of raw draws is admissible when there is one draw per distribution and each
  lies between 0 and the bound of its distribution.
\<close>

definition admissible :: "'a::len word list \<Rightarrow> 'a word list \<Rightarrow> bool" where
  "admissible dists draws = list_all2 (\<lambda>draw bound. draw \<le> bound) draws dists"

text \<open>
  The raw base: \<^verbatim>\<open>base = baseDist[0](rand_gen)\<close>, then
  \<^verbatim>\<open>base <<= WORD_SIZE; base |= baseDist[i](rand_gen)\<close> for the further draws. With no
  distribution at all, \<^verbatim>\<open>baseDist[0U]\<close> reads an empty vector.
\<close>

fun composeDraws :: "nat \<Rightarrow> 'a::len word \<Rightarrow> 'a word list \<Rightarrow> 'a word" where
  "composeDraws WORD_SIZE base [] = base"
| "composeDraws WORD_SIZE base (draw # draws) =
     composeDraws WORD_SIZE (push_bit WORD_SIZE base OR draw) draws"

definition rawBase :: "nat \<Rightarrow> 'a::len word list \<Rightarrow> error + 'a word" where
  "rawBase WORD_SIZE draws =
     (case draws of [] \<Rightarrow> Inl EmptyVector
      | draw # rest \<Rightarrow> Inr (composeDraws WORD_SIZE draw rest))"

text \<open>
  The loop over the primes above 5,
  \<^verbatim>\<open>for (size_t i = primeIndex; i > 2U; --i) base += base / (trialDivisionPrimes[i] - 1U) + 1U;\<close>
\<close>

function primeLoop :: "nat \<Rightarrow> 'a::len word \<Rightarrow> 'a word" where
  "primeLoop i base =
     (if i > 2
      then primeLoop (i - 1) (base + (base div of_nat (trialDivisionPrimes ! i - 1) + 1))
      else base)"
  by pat_completeness auto
termination
  by (relation "measure (\<lambda>(i, base). i)") auto

declare primeLoop.simps [simp del]

text \<open>
  The rest of the transform. \<^verbatim>\<open>~1U\<close> is the complement of the \<^verbatim>\<open>unsigned\<close> 1, that is
  \<open>2\<^sup>3\<^sup>2 - 2 = 4294967294\<close>, zero-extended when it meets the wider \<^verbatim>\<open>bitCapInt\<close>:
  the conjunction clears bit 0 and every bit from 32 up.
\<close>

definition candidateBase :: "nat \<Rightarrow> 'a::len word \<Rightarrow> 'a word \<Rightarrow> 'a word" where
  "candidateBase primeIndex threadMin raw =
     (let base1 = primeLoop primeIndex raw;
          base2 = base1 + (drop_bit 2 base1 + 1)
      in ((push_bit 1 base2 + base2) AND 4294967294) + threadMin)"

text \<open>
  The semiprime fast path on one candidate: success with the pair \<^verbatim>\<open>(base, toFactor / base)\<close>
  when \<^verbatim>\<open>toFactor % base == 0\<close>.
\<close>

definition tryBase :: "'a::len word \<Rightarrow> 'a word \<Rightarrow> error + ('a word \<times> 'a word) option" where
  "tryBase toFactor base =
     (if base = 0 then Inl DivisionByZero
      else if toFactor mod base = 0 then Inr (Some (base, toFactor div base))
      else Inr None)"

text \<open>
  The test under which the general path of the single-file variant reports a pair:
  \<^verbatim>\<open>((f1 * f2) == toFactor) && (f1 > 1U) && (f2 > 1U)\<close>. The fast path has no such test.
\<close>

definition properPair :: "'a::len word \<Rightarrow> 'a word \<times> 'a word \<Rightarrow> bool" where
  "properPair toFactor pair = (fst pair * snd pair = toFactor \<and> 1 < fst pair \<and> 1 < snd pair)"

text \<open>
  One candidate of a worker, from the raw draws to the base, and one trial, from the raw
  draws to the outcome of the fast path. The draws that the distributions of the worker
  can produce are the admissible ones.
\<close>

definition admissibleFor :: "'a::len word threadBounds \<Rightarrow> 'a word list \<Rightarrow> bool" where
  "admissibleFor b draws =
     admissible (fst (baseDist (wordSizeOf (workerRange b)) (workerRange b))) draws"

definition sampleBase :: "nat \<Rightarrow> 'a::len word threadBounds \<Rightarrow> 'a word list \<Rightarrow> error + 'a word" where
  "sampleBase primeIndex b draws =
     (let (dists, WORD_SIZE) = baseDist (wordSizeOf (workerRange b)) (workerRange b)
      in case rawBase WORD_SIZE draws of
           Inl e \<Rightarrow> Inl e
         | Inr raw \<Rightarrow> Inr (candidateBase primeIndex (workerMin b) raw))"

definition trial ::
  "'a::len word \<Rightarrow> nat \<Rightarrow> 'a word threadBounds \<Rightarrow> 'a word list
     \<Rightarrow> error + ('a word \<times> 'a word) option" where
  "trial toFactor primeIndex b draws =
     (case sampleBase primeIndex b draws of
        Inl e \<Rightarrow> Inl e
      | Inr base \<Rightarrow> tryBase toFactor base)"

subsection \<open>Node ranges as intervals\<close>

text \<open>
  The bounds \<^verbatim>\<open>(nodeMin, nodeMax)\<close> of node \<open>nodeId\<close>, and the test whether a value lies
  in the closed interval between them, for one node and for some node below \<open>nodeCount\<close>.
\<close>

definition nodeBoundsOf :: "'a::len word \<Rightarrow> 'a word \<Rightarrow> nat \<Rightarrow> nat \<Rightarrow> 'a word \<times> 'a word" where
  "nodeBoundsOf fullMinBase fullRange nodeCount nodeId =
     (let nodeRange = nodeRangeOf fullRange nodeCount;
          nodeMin = nodeMinOf fullMinBase nodeRange nodeId
      in (nodeMin, nodeMaxOf nodeMin nodeRange))"

definition inNode :: "'a::len word \<Rightarrow> 'a word \<Rightarrow> nat \<Rightarrow> nat \<Rightarrow> 'a word \<Rightarrow> bool" where
  "inNode fullMinBase fullRange nodeCount nodeId x =
     (let (nodeMin, nodeMax) = nodeBoundsOf fullMinBase fullRange nodeCount nodeId
      in nodeMin \<le> x \<and> x \<le> nodeMax)"

definition coveredByNodes :: "nat \<Rightarrow> 'a::len word \<Rightarrow> 'a word \<Rightarrow> nat \<Rightarrow> 'a word \<Rightarrow> bool" where
  "coveredByNodes L fullMinBase fullMaxBase nodeCount x =
     list_ex (\<lambda>nodeId. inNode fullMinBase (fullRangeOf L fullMinBase fullMaxBase) nodeCount nodeId x)
       [0..<nodeCount]"

subsection \<open>Workers and the termination flag\<close>

text \<open>
  Each worker runs \<^verbatim>\<open>waitForSuccess\<close>: batches of \<^verbatim>\<open>BASE_TRIALS\<close> trials, the shared
  \<^verbatim>\<open>std::atomic<bool> isFinished\<close> read only between batches. A successful trial stores
  \<^verbatim>\<open>true\<close> in the flag, then prints the pair (\<^verbatim>\<open>printSuccess\<close>), then returns. Loads and
  stores of the flag are sequentially consistent, so a run of the workers is an
  interleaving of their steps. The position of a worker is the index of the next trial in
  its batch (at \<^verbatim>\<open>BASE_TRIALS\<close>: the test of the flag), the pending print after a
  successful trial, or that it has returned or failed. The random generator is a source
  of arbitrary draws within the bounds of the distributions.
\<close>

datatype 'w position = Batch nat | Reporting 'w 'w | Returned | Failed error

record 'w run =
  isFinished :: bool
  workers :: "'w position list"
  reports :: "(nat \<times> 'w \<times> 'w) list"

definition BASE_TRIALS :: nat where
  "BASE_TRIALS = 2 ^ 16"

text \<open>
  One step of worker \<open>t\<close>. In a trial step the worker consumes the given raw draws; draws
  that its distributions cannot produce leave the state as it is.
\<close>

definition workerStep ::
  "'a::len word \<Rightarrow> nat \<Rightarrow> 'a word threadBounds list \<Rightarrow> nat \<Rightarrow> 'a word list
     \<Rightarrow> 'a word run \<Rightarrow> 'a word run" where
  "workerStep toFactor primeIndex bounds t draws s =
     (if t \<ge> length (workers s) \<or> t \<ge> length bounds then s
      else case workers s ! t of
        Batch batchItem \<Rightarrow>
          if batchItem < BASE_TRIALS
          then if admissibleFor (bounds ! t) draws
               then (case trial toFactor primeIndex (bounds ! t) draws of
                       Inl e \<Rightarrow> s\<lparr>workers := (workers s)[t := Failed e]\<rparr>
                     | Inr (Some (f1, f2)) \<Rightarrow>
                         s\<lparr>isFinished := True, workers := (workers s)[t := Reporting f1 f2]\<rparr>
                     | Inr None \<Rightarrow> s\<lparr>workers := (workers s)[t := Batch (batchItem + 1)]\<rparr>)
               else s
          else if isFinished s then s\<lparr>workers := (workers s)[t := Returned]\<rparr>
               else s\<lparr>workers := (workers s)[t := Batch 0]\<rparr>
      | Reporting f1 f2 \<Rightarrow>
          s\<lparr>workers := (workers s)[t := Returned], reports := reports s @ [(t, f1, f2)]\<rparr>
      | Returned \<Rightarrow> s
      | Failed e \<Rightarrow> s)"

text \<open>A schedule names, step by step, the worker that moves and the draws it makes.\<close>

fun runSchedule ::
  "'a::len word \<Rightarrow> nat \<Rightarrow> 'a word threadBounds list \<Rightarrow> (nat \<times> 'a word list) list
     \<Rightarrow> 'a word run \<Rightarrow> 'a word run" where
  "runSchedule toFactor primeIndex bounds [] s = s"
| "runSchedule toFactor primeIndex bounds ((t, draws) # schedule) s =
     runSchedule toFactor primeIndex bounds schedule (workerStep toFactor primeIndex bounds t draws s)"

definition initialRun :: "nat \<Rightarrow> 'w run" where
  "initialRun cpuCount = \<lparr>isFinished = False, workers = replicate cpuCount (Batch 0), reports = []\<rparr>"

text \<open>The reports that worker \<open>t\<close> has made.\<close>

definition reportsOf :: "nat \<Rightarrow> 'w run \<Rightarrow> ('w \<times> 'w) list" where
  "reportsOf t s = map snd (filter (\<lambda>r. fst r = t) (reports s))"

text \<open>
  What every run maintains: no worker has reported twice, a worker that has reported has
  returned, and a pending or finished report implies that the flag is set.
\<close>

definition runInvariant :: "'w run \<Rightarrow> bool" where
  "runInvariant s \<longleftrightarrow>
     distinct (map fst (reports s))
     \<and> (\<forall>r \<in> set (reports s). fst r < length (workers s) \<and> workers s ! fst r = Returned)
     \<and> (\<forall>t < length (workers s). \<forall>f1 f2. workers s ! t = Reporting f1 f2 \<longrightarrow> isFinished s)
     \<and> (reports s \<noteq> [] \<longrightarrow> isFinished s)"

text \<open>
  \<^verbatim>\<open>mainBody\<close> as a whole, under a schedule of its workers. There is no value where the
  trial-division level or the full bounds have none.
\<close>

definition mainBody ::
  "'a::len word \<Rightarrow> nat \<Rightarrow> nat \<Rightarrow> nat \<Rightarrow> nat \<Rightarrow> (nat \<times> 'a word list) list
     \<Rightarrow> (error + 'a word run) option" where
  "mainBody toFactor qubitCount nodeCount nodeId cpuCount schedule =
     (case pickTrialDivisionLevel qubitCount of
        None \<Rightarrow> None
      | Some L \<Rightarrow>
          (case fullMinBaseOf qubitCount of
             None \<Rightarrow> None
           | Some lo \<Rightarrow>
               (case fullMaxBaseOf qubitCount of
                  None \<Rightarrow> None
                | Some hi \<Rightarrow>
                    let fullMinBase = of_nat lo; fullMaxBase = of_nat hi
                    in Some (case mainBodyWorkers L fullMinBase fullMaxBase nodeCount nodeId cpuCount of
                               Inl e \<Rightarrow> Inl e
                             | Inr bounds \<Rightarrow>
                                 Inr (runSchedule toFactor (primeIndexOf L fullMinBase fullMaxBase)
                                        bounds schedule (initialRun cpuCount))))))"

section \<open>Properties of the single-file variant\<close>

lemma gcd_rec_returns: "\<exists>g. gcd_rec a b = Some g \<and> unat g = gcd (unat a) (unat b)"
proof (induction "unat b" arbitrary: a b rule: less_induct)
  case less
  show ?case
  proof (cases "b = 0")
    case True
    then show ?thesis
      by (simp add: gcd_rec.simps)
  next
    case False
    then have "unat (a mod b) < unat b"
      by (simp add: unat_mod unat_gt_0)
    from less [OF this] obtain g
      where g: "gcd_rec b (a mod b) = Some g" "unat g = gcd (unat b) (unat (a mod b))"
      by blast
    have "gcd (unat b) (unat a mod unat b) = gcd (unat a) (unat b)"
      by (metis gcd.commute gcd_red_nat)
    with g False show ?thesis
      by (subst gcd_rec.simps) (simp add: unat_mod)
  qed
qed

text \<open>
  C8. \<^verbatim>\<open>gcd(a, 0)\<close> is \<open>a\<close>, and the recursion \<^verbatim>\<open>gcd(a, b) = gcd(b, a % b)\<close> returns for
  every pair of \<^verbatim>\<open>bitCapInt\<close> values; what it returns is the greatest common divisor.
\<close>

theorem gcd_zero_and_terminates:
  "gcd_rec a 0 = Some a
   \<and> (\<exists>g. gcd_rec a b = Some g \<and> unat g = gcd (unat a) (unat b))"
  using gcd_rec_returns [of a b] by (simp add: gcd_rec.simps)

text \<open>
  One round of the \<^verbatim>\<open>do\<close> loop with both calls unfolded: the term list handed to
  \<^verbatim>\<open>calc_continued_fraction\<close> ends with the term just pushed.
\<close>

lemma cf_loop_unfold:
  "cf_loop toFactor numerator denominator denominators =
     (if denominator = 0 then Inl DivisionByZero
      else let intPart = numerator div denominator;
               denominator1 = numerator - intPart * denominator;
               denominators1 = denominators @ [intPart];
               conv = cf_fold denominators1 (length denominators) 1 intPart
           in if 0 < denominator1 \<and> snd conv < toFactor
              then cf_loop toFactor denominator denominator1 denominators1
              else Inr (denominators1, fst conv, snd conv))"
  by (subst cf_loop.simps)
     (simp add: continued_fraction_step_def calc_continued_fraction_def Let_def split: prod.splits)

lemma cf_loop_zero: "cf_loop toFactor numerator 0 denominators = Inl DivisionByZero"
  by (subst cf_loop_unfold) simp

lemma cf_loop_nonzero:
  "denominator \<noteq> 0 \<Longrightarrow>
     \<exists>ds an ad. cf_loop toFactor numerator denominator denominators = Inr (ds, an, ad) \<and> ds \<noteq> []"
proof (induction toFactor numerator denominator denominators rule: cf_loop.induct)
  case (1 toFactor numerator denominator denominators)
  define intPart where "intPart = numerator div denominator"
  define denominator1 where "denominator1 = numerator - intPart * denominator"
  define denominators1 where "denominators1 = denominators @ [intPart]"
  define conv where "conv = cf_fold denominators1 (length denominators) 1 intPart"
  note defs = intPart_def denominator1_def denominators1_def conv_def
  show ?case
  proof (cases "0 < denominator1 \<and> snd conv < toFactor")
    case True
    have step: "continued_fraction_step numerator denominator = Inr (intPart, denominator, denominator1)"
      using "1.prems" by (simp add: continued_fraction_step_def intPart_def denominator1_def Let_def)
    have calc: "calc_continued_fraction denominators1 = Some (fst conv, snd conv)"
      by (simp add: calc_continued_fraction_def denominators1_def conv_def)
    from True have "denominator1 \<noteq> 0"
      by auto
    with "1.IH" [OF step refl refl denominators1_def calc refl True]
    obtain ds an ad
      where "cf_loop toFactor denominator denominator1 denominators1 = Inr (ds, an, ad)" "ds \<noteq> []"
      by auto
    with "1.prems" True show ?thesis
      by (subst cf_loop_unfold) (simp add: Let_def defs)
  next
    case False
    with "1.prems" show ?thesis
      by (subst cf_loop_unfold) (auto simp add: Let_def defs)
  qed
qed

text \<open>
  C10. In the general path, \<^verbatim>\<open>calc_continued_fraction\<close> never reads \<^verbatim>\<open>back()\<close> of an empty
  term list: every call inside the loop follows a \<^verbatim>\<open>push_back\<close>, the \<^verbatim>\<open>pop_back\<close> after the
  loop finds a non-empty list, and the call after it is guarded by the size test. In the
  model each such read would surface as \<open>EmptyVector\<close>; the computation of the period
  candidate never yields it, and fails only by the division by \<open>y = 0\<close> of the first step.
\<close>

theorem period_candidate_never_empty:
  "period_candidate toFactor qubitPower y \<noteq> Inl EmptyVector
   \<and> cf_loop toFactor numerator denominator denominators \<noteq> Inl EmptyVector
   \<and> (\<exists>r. period_candidate toFactor qubitPower y = (if y = 0 then Inl DivisionByZero else Inr r))"
proof -
  have loop: "cf_loop toFactor numerator denominator denominators \<noteq> Inl EmptyVector"
    using cf_loop_nonzero [of denominator toFactor numerator denominators]
    by (cases "denominator = 0") (auto simp: cf_loop_zero)
  have res: "\<exists>r. period_candidate toFactor qubitPower y = (if y = 0 then Inl DivisionByZero else Inr r)"
  proof (cases "y = 0")
    case True
    then show ?thesis
      by (simp add: period_candidate_def cf_loop_zero)
  next
    case False
    from cf_loop_nonzero [OF this, of toFactor qubitPower "[]"] obtain ds an ad
      where ds: "cf_loop toFactor qubitPower y [] = Inr (ds, an, ad)" "ds \<noteq> []"
      by blast
    show ?thesis
    proof (cases "butlast ds = []")
      case True
      with ds False show ?thesis
        by (simp add: period_candidate_def)
    next
      case nonempty: False
      then obtain c where "calc_continued_fraction (butlast ds) = Some c"
        by (auto simp: calc_continued_fraction_def)
      with ds False nonempty show ?thesis
        by (cases c) (simp add: period_candidate_def)
    qed
  qed
  from res have "period_candidate toFactor qubitPower y \<noteq> Inl EmptyVector"
    by (auto split: if_splits)
  with loop res show ?thesis
    by blast
qed

text \<open>
  C4. \<^verbatim>\<open>uipow\<close> tests the low bit of the running base \<open>b\<close> where exponentiation by
  squaring tests the low bit of the exponent \<open>e\<close>. For base 3 and exponent 2 it multiplies
  the result by 3 and then by 9 and returns 27, which is not \<open>3\<^sup>2 = 9\<close>.
\<close>

theorem uipow_three_two: "uipow 3 2 = 27 \<and> uipow 3 2 \<noteq> 3 ^ 2"
  by (simp add: uipow_def uipow_loop.simps [of _ _ 2] uipow_loop.simps [of _ _ 1])

section \<open>Properties of the distributed variant\<close>

subsection \<open>Evaluating the walk over the prime table\<close>

lemma primes_length: "length trialDivisionPrimes = 1000"
  by (simp add: trialDivisionPrimes_def)

lemma primes_take:
  "take 18 trialDivisionPrimes = [2, 3, 5, 7, 11, 13, 17, 19, 23, 29, 31, 37, 41, 43, 47, 53, 59, 61]"
  by (simp add: trialDivisionPrimes_def)

lemma primes_nth:
  assumes "i < 18"
  shows "trialDivisionPrimes ! i
           = [2, 3, 5, 7, 11, 13, 17, 19, 23, 29, 31, 37, 41, 43, 47, 53, 59, 61] ! i"
proof -
  have "trialDivisionPrimes ! i = take 18 trialDivisionPrimes ! i"
    using assms by simp
  then show ?thesis
    by (simp only: primes_take)
qed

lemmas partition_defs = mainBodyWorkers_def fullRangeOf_def primeIndexOf_def shrunkRange_def
  shrinkLoop.simps nodeRangeOf_def nodeMinOf_def nodeMaxOf_def threadRangeOf_def threadBoundsOf_def
  alignLoop.simps primes_length primes_nth

lemmas sampler_defs = sampleBase_def admissibleFor_def admissible_def baseDist_def workerRange_def
  wordSizeOf_def rawBase_def candidateBase_def primeLoop.simps primes_nth

lemma upt_0_16: "[0..<16] = [0, 1, 2, 3, 4, 5, 6, 7, 8, 9, 10, 11, 12, 13, 14, 15 :: nat]"
  by code_simp

lemma upt_0_4: "[0..<4] = [0, 1, 2, 3 :: nat]"
  by code_simp

lemma upt_0_1: "[0..<1] = [0 :: nat]"
  by code_simp

lemma replicate_16: "replicate 16 x = [x, x, x, x, x, x, x, x, x, x, x, x, x, x, x, x]"
  by (simp add: eval_nat_numeral)

lemma BASE_TRIALS_pos: "0 < BASE_TRIALS"
  by (simp add: BASE_TRIALS_def)

subsection \<open>Two concrete runs\<close>

text \<open>
  \<open>589 = 19 \<times> 31\<close> on one node with one hardware thread: 10 bits, level 59, full bounds
  9 and 63, and a single worker with \<^verbatim>\<open>threadMin = 3\<close> and \<^verbatim>\<open>threadMax = 11\<close>.
\<close>

lemma setup_589:
  "qubitCountOf 589 = 10" "pickTrialDivisionLevel 10 = Some 59"
  "fullMinBaseOf 10 = Some 9" "fullMaxBaseOf 10 = Some 63"
  by (simp_all add: qubitCountOf_def shiftCount.simps pickTrialDivisionLevel_def
      fullMinBaseOf_def fullMaxBaseOf_def primeBitsOf_def primeDict_def)

lemma workers_589:
  "mainBodyWorkers 59 (9 :: 64 word) 63 (Suc 0) 0 (Suc 0) = Inr [\<lparr>workerMin = 3, workerMax = 11\<rparr>]"
  using upt_0_1 by (simp add: partition_defs)

lemma primeIndex_589: "primeIndexOf 59 (9 :: 64 word) 63 = 17"
  by (simp add: partition_defs)

text \<open>
  \<open>143 = 11 \<times> 13\<close> on one node with 16 hardware threads: 8 bits, level 59, full bounds
  5 and 31, and 16 workers that all start from \<^verbatim>\<open>threadMin = 3\<close>.
\<close>

lemma setup_143:
  "qubitCountOf 143 = 8" "pickTrialDivisionLevel 8 = Some 59"
  "fullMinBaseOf 8 = Some 5" "fullMaxBaseOf 8 = Some 31"
  by (simp_all add: qubitCountOf_def shiftCount.simps pickTrialDivisionLevel_def
      fullMinBaseOf_def fullMaxBaseOf_def primeBitsOf_def primeDict_def)

lemma workers_143:
  "mainBodyWorkers 59 (5 :: 64 word) 31 (Suc 0) 0 16 = Inr
     [\<lparr>workerMin = 3, workerMax = 6\<rparr>, \<lparr>workerMin = 3, workerMax = 8\<rparr>,
      \<lparr>workerMin = 3, workerMax = 8\<rparr>, \<lparr>workerMin = 3, workerMax = 10\<rparr>,
      \<lparr>workerMin = 3, workerMax = 10\<rparr>, \<lparr>workerMin = 3, workerMax = 12\<rparr>,
      \<lparr>workerMin = 3, workerMax = 12\<rparr>, \<lparr>workerMin = 3, workerMax = 14\<rparr>,
      \<lparr>workerMin = 3, workerMax = 14\<rparr>, \<lparr>workerMin = 3, workerMax = 16\<rparr>,
      \<lparr>workerMin = 3, workerMax = 16\<rparr>, \<lparr>workerMin = 3, workerMax = 18\<rparr>,
      \<lparr>workerMin = 3, workerMax = 18\<rparr>, \<lparr>workerMin = 3, workerMax = 20\<rparr>,
      \<lparr>workerMin = 3, workerMax = 20\<rparr>, \<lparr>workerMin = 3, workerMax = 22\<rparr>]"
  by (simp add: partition_defs upt_0_16)

lemma primeIndex_143: "primeIndexOf 59 (5 :: 64 word) 31 = 17"
  by (simp add: partition_defs)

lemma hit_143:
  "admissibleFor \<lparr>workerMin = 3 :: 64 word, workerMax = 16\<rparr> [11]"
  "trial (143 :: 64 word) 17 \<lparr>workerMin = 3, workerMax = 16\<rparr> [11] = Inr (Some (143, 1))"
  by (simp_all add: trial_def tryBase_def sampler_defs)

lemma miss_143:
  "admissibleFor \<lparr>workerMin = 3 :: 64 word, workerMax = 6\<rparr> [0]"
  "trial (143 :: 64 word) 17 \<lparr>workerMin = 3, workerMax = 6\<rparr> [0] = Inr None"
  by (simp_all add: trial_def tryBase_def sampler_defs)

lemma mainBody_143:
  "mainBody (143 :: 64 word) 8 (Suc 0) 0 16 schedule = Some (Inr (runSchedule 143 17
     [\<lparr>workerMin = 3, workerMax = 6\<rparr>, \<lparr>workerMin = 3, workerMax = 8\<rparr>,
      \<lparr>workerMin = 3, workerMax = 8\<rparr>, \<lparr>workerMin = 3, workerMax = 10\<rparr>,
      \<lparr>workerMin = 3, workerMax = 10\<rparr>, \<lparr>workerMin = 3, workerMax = 12\<rparr>,
      \<lparr>workerMin = 3, workerMax = 12\<rparr>, \<lparr>workerMin = 3, workerMax = 14\<rparr>,
      \<lparr>workerMin = 3, workerMax = 14\<rparr>, \<lparr>workerMin = 3, workerMax = 16\<rparr>,
      \<lparr>workerMin = 3, workerMax = 16\<rparr>, \<lparr>workerMin = 3, workerMax = 18\<rparr>,
      \<lparr>workerMin = 3, workerMax = 18\<rparr>, \<lparr>workerMin = 3, workerMax = 20\<rparr>,
      \<lparr>workerMin = 3, workerMax = 20\<rparr>, \<lparr>workerMin = 3, workerMax = 22\<rparr>]
     schedule
     \<lparr>isFinished = False,
      workers = [Batch 0, Batch 0, Batch 0, Batch 0, Batch 0, Batch 0, Batch 0, Batch 0,
                 Batch 0, Batch 0, Batch 0, Batch 0, Batch 0, Batch 0, Batch 0, Batch 0],
      reports = []\<rparr>))"
  by (simp add: mainBody_def setup_143 workers_143 primeIndex_143 initialRun_def replicate_16)

subsection \<open>The fast path and the sampler\<close>

text \<open>
  C1. The fast path reports \<^verbatim>\<open>(base, toFactor / base)\<close> as soon as \<^verbatim>\<open>toFactor % base == 0\<close>,
  without the test \<^verbatim>\<open>base < toFactor\<close> that the comment "Choose a base at random, >1 and
  <toFactor" promises and the sampler does not provide. For \<open>143 = 11 \<times> 13\<close> with 16
  hardware threads, thread 9 draws from \<open>[0, 12]\<close>; the draw 11 becomes the base 143, and
  the engine reports the pair \<open>(143, 1)\<close>, whose second component is not above 1: a
  pair that the success test of the general path would reject.
\<close>

theorem fast_path_reports_trivial_pair:
  "mainBody (143 :: 64 word) (qubitCountOf 143) 1 0 16 [(9, [11]), (9, [])]
     = Some (Inr \<lparr>isFinished = True,
          workers = [Batch 0, Batch 0, Batch 0, Batch 0, Batch 0, Batch 0, Batch 0, Batch 0,
                     Batch 0, Returned, Batch 0, Batch 0, Batch 0, Batch 0, Batch 0, Batch 0],
          reports = [(9, 143, 1)]\<rparr>)
   \<and> \<not> properPair (143 :: 64 word) (143, 1)"
  by (simp add: setup_143 mainBody_143 workerStep_def hit_143 BASE_TRIALS_pos properPair_def)

text \<open>
  C2. The comments of the transform say that each step makes the base "NOT a multiple"
  of its prime, and that \<^verbatim>\<open>threadMin\<close> is aligned "to a multiple of ALL trial division
  factors". Each later step undoes what the earlier ones achieved, and the alignment loop
  leaves a multiple of the last prime only. For \<open>589 = 19 \<times> 31\<close> with one hardware thread
  the draw 0 becomes the base 75, a multiple of the trial-division primes 3 and 5.
\<close>

theorem sampled_base_divisible_by_small_primes:
  "pickTrialDivisionLevel (qubitCountOf 589) = Some 59
   \<and> mainBodyWorkers 59 (9 :: 64 word) 63 1 0 1 = Inr [\<lparr>workerMin = 3, workerMax = 11\<rparr>]
   \<and> primeIndexOf 59 (9 :: 64 word) 63 = 17
   \<and> admissibleFor \<lparr>workerMin = 3 :: 64 word, workerMax = 11\<rparr> [0]
   \<and> sampleBase 17 \<lparr>workerMin = 3 :: 64 word, workerMax = 11\<rparr> [0] = Inr 75
   \<and> (75 :: 64 word) mod 3 = 0 \<and> (75 :: 64 word) mod 5 = 0
   \<and> trialDivisionPrimes ! 1 = 3 \<and> trialDivisionPrimes ! 2 = 5 \<and> (5 :: nat) \<le> 59"
  by (simp add: setup_589 workers_589 primeIndex_589 sampler_defs)

lemma mask_le: "unat ((x :: 'a::len word) AND 4294967294) \<le> 4294967294"
proof -
  have "x AND 4294967294 \<le> 4294967294"
    by (rule word_and_le1)
  then have "unat (x AND 4294967294) \<le> unat (4294967294 :: 'a word)"
    by (simp add: word_le_nat_alt)
  also have "\<dots> \<le> 4294967294"
    by (simp add: unat_numeral take_bit_eq_mod)
  finally show ?thesis .
qed

lemma candidateBase_lower:
  fixes threadMin :: "'a::len word"
  assumes "unat threadMin + 2 ^ 32 \<le> 2 ^ LENGTH('a)"
  shows "threadMin \<le> candidateBase primeIndex threadMin raw"
proof -
  define m where "m = (let base1 = primeLoop primeIndex raw;
          base2 = base1 + (drop_bit 2 base1 + 1)
      in ((push_bit 1 base2 + base2) AND 4294967294))"
  have cb: "candidateBase primeIndex threadMin raw = m + threadMin"
    by (simp add: candidateBase_def m_def Let_def)
  have "unat m \<le> 4294967294"
    unfolding m_def Let_def by (rule mask_le)
  with assms have "unat m + unat threadMin < 2 ^ LENGTH('a)"
    by simp
  then have "unat (m + threadMin) = unat m + unat threadMin"
    by (simp add: unat_add_lem)
  then show ?thesis
    unfolding cb by (simp add: word_le_nat_alt)
qed

text \<open>
  C6, as stated, fails: the transform stretches the raw draw (by a factor of about 7 for
  the level 59, and by at least 72 even for the draw 0), while \<^verbatim>\<open>threadMax\<close> bounds the raw
  draw. For \<open>589\<close> with one hardware thread the draw 7 of the worker \<open>[3, 11)\<close> becomes
  the base 117.
\<close>

theorem sampled_base_beyond_threadMax:
  "mainBodyWorkers 59 (9 :: 64 word) 63 1 0 1 = Inr [\<lparr>workerMin = 3, workerMax = 11\<rparr>]
   \<and> primeIndexOf 59 (9 :: 64 word) 63 = 17
   \<and> admissibleFor \<lparr>workerMin = 3 :: 64 word, workerMax = 11\<rparr> [7]
   \<and> sampleBase 17 \<lparr>workerMin = 3 :: 64 word, workerMax = 11\<rparr> [7] = Inr 117
   \<and> \<not> (117 :: 64 word) < workerMax \<lparr>workerMin = 3 :: 64 word, workerMax = 11\<rparr>"
  by (simp add: workers_589 primeIndex_589 sampler_defs)

text \<open>
  C6, amended. Every candidate base is at least \<^verbatim>\<open>threadMin\<close>, whatever the raw draws,
  provided \<^verbatim>\<open>threadMin\<close> leaves room for 32 more bits in \<^verbatim>\<open>bitCapInt\<close>. There is no upper
  bound by \<^verbatim>\<open>threadMax\<close>.
\<close>

theorem sampled_base_lower_bound:
  fixes b :: "'a::len word threadBounds"
  assumes "unat (workerMin b) + 2 ^ 32 \<le> 2 ^ LENGTH('a)"
    and "sampleBase primeIndex b draws = Inr base"
  shows "workerMin b \<le> base"
  using assms(2) candidateBase_lower [OF assms(1)]
  by (auto simp: sampleBase_def split: prod.splits sum.splits)

theorem sampled_base_lower_bound_witness:
  "unat (workerMin \<lparr>workerMin = 3 :: 64 word, workerMax = 11\<rparr>) + 2 ^ 32 \<le> 2 ^ LENGTH(64)
   \<and> sampleBase 17 \<lparr>workerMin = 3 :: 64 word, workerMax = 11\<rparr> [0] = Inr 75
   \<and> workerMin \<lparr>workerMin = 3 :: 64 word, workerMax = 11\<rparr> \<le> 75"
proof -
  have room: "unat (workerMin \<lparr>workerMin = 3 :: 64 word, workerMax = 11\<rparr>) + 2 ^ 32 \<le> 2 ^ LENGTH(64)"
    by simp
  have sample: "sampleBase 17 \<lparr>workerMin = 3 :: 64 word, workerMax = 11\<rparr> [0] = Inr 75"
    by (simp add: sampler_defs)
  from sampled_base_lower_bound [OF room sample] room sample show ?thesis
    by blast
qed

subsection \<open>Range partitioner\<close>

lemma union_blocks:
  "(\<Union>k<n. {m + r * k ..< m + r * (k + 1)}) = {m ..< m + r * (n::nat)}"
proof (induction n)
  case 0
  then show ?case by simp
next
  case (Suc n)
  have "(\<Union>k<Suc n. {m + r * k ..< m + r * (k + 1)})
          = (\<Union>k<n. {m + r * k ..< m + r * (k + 1)}) \<union> {m + r * n ..< m + r * (n + 1)}"
    by (simp add: lessThan_Suc Un_commute)
  also have "\<dots> = {m ..< m + r * n} \<union> {m + r * n ..< m + r * (n + 1)}"
    by (simp only: Suc.IH)
  also have "\<dots> = {m ..< m + r * (n + 1)}"
    by (rule ivl_disj_un_two) simp_all
  finally show ?case by simp
qed

lemma unat_nodeRangeOf:
  fixes fullRange :: "'a::len word"
  assumes "1 \<le> nodeCount" and "unat fullRange + nodeCount < 2 ^ LENGTH('a)"
  shows "unat (nodeRangeOf fullRange nodeCount) = (unat fullRange + nodeCount - 1) div nodeCount"
proof -
  have c: "unat (of_nat nodeCount :: 'a word) = nodeCount"
    using assms by (simp add: unat_of_nat)
  have s: "unat (fullRange + of_nat nodeCount) = unat fullRange + nodeCount"
    using assms c by (simp add: unat_word_ariths)
  have "(1 :: 'a word) \<le> fullRange + of_nat nodeCount"
    using assms s by (simp add: word_le_nat_alt)
  then have "unat (fullRange + of_nat nodeCount - 1) = unat fullRange + nodeCount - 1"
    using s by (simp add: unat_sub)
  then show ?thesis
    by (simp add: nodeRangeOf_def unat_div c)
qed

lemma ceiling_bounds:
  assumes "1 \<le> (n::nat)"
  shows "R \<le> (R + n - 1) div n * n" and "(R + n - 1) div n * n < R + n"
proof -
  have "(R + n - 1) div n * n + (R + n - 1) mod n = R + n - 1"
    by simp
  moreover have "(R + n - 1) mod n < n"
    using assms by simp
  ultimately show "R \<le> (R + n - 1) div n * n" and "(R + n - 1) div n * n < R + n"
    using assms by linarith+
qed

lemma unat_nodeMinOf:
  fixes fullMinBase nodeRange :: "'a::len word"
  assumes "unat fullMinBase + unat nodeRange * nodeId < 2 ^ LENGTH('a)" and "nodeId < 2 ^ LENGTH('a)"
  shows "unat (nodeMinOf fullMinBase nodeRange nodeId) = unat fullMinBase + unat nodeRange * nodeId"
proof -
  have c: "unat (of_nat nodeId :: 'a word) = nodeId"
    using assms by (simp add: unat_of_nat)
  have "unat nodeRange * nodeId < 2 ^ LENGTH('a)"
    using assms by simp
  then have "unat (nodeRange * of_nat nodeId) = unat nodeRange * nodeId"
    using c by (simp add: unat_word_ariths)
  then show ?thesis
    using assms by (simp add: nodeMinOf_def unat_word_ariths)
qed

lemma nodeMax_is_next_nodeMin:
  "nodeMaxOf (nodeMinOf fullMinBase nodeRange nodeId) nodeRange
     = nodeMinOf fullMinBase nodeRange (nodeId + 1)"
  by (simp add: nodeMaxOf_def nodeMinOf_def algebra_simps)

lemma shrink_step_le:
  fixes fullRange :: "'a::len word"
  shows "unat (fullRange * of_nat (currentPrime - 1) div of_nat currentPrime) \<le> unat fullRange"
proof (cases "(of_nat currentPrime :: 'a word) = 0")
  case True
  then show ?thesis by simp
next
  case False
  define P where "P = unat (of_nat currentPrime :: 'a word)"
  have P: "0 < P" using False by (simp add: P_def unat_gt_0)
  have "currentPrime \<noteq> 0"
  proof
    assume "currentPrime = 0"
    then have "(of_nat currentPrime :: 'a word) = 0"
      by simp
    with False show False
      by simp
  qed
  then have "(of_nat (currentPrime - 1) :: 'a word) = of_nat currentPrime - 1"
    by (cases currentPrime) simp_all
  moreover have "(1 :: 'a word) \<le> of_nat currentPrime"
    using P by (simp add: word_le_nat_alt P_def)
  ultimately have Q: "unat (of_nat (currentPrime - 1) :: 'a word) = P - 1"
    by (simp add: unat_sub P_def)
  have "unat (fullRange * of_nat (currentPrime - 1) div of_nat currentPrime)
          = (unat fullRange * (P - 1)) mod 2 ^ LENGTH('a) div P"
    using Q by (simp add: unat_div unat_word_ariths P_def)
  also have "\<dots> \<le> (unat fullRange * (P - 1)) div P"
    by (rule div_le_mono) simp
  also have "\<dots> \<le> (unat fullRange * P) div P"
    by (rule div_le_mono) simp
  also have "\<dots> = unat fullRange"
    using P by simp
  finally show ?thesis .
qed

lemma shrinkLoop_le:
  "unat (fst (shrinkLoop L currentPrime primeIndex fullRange)) \<le> unat fullRange"
proof (induction L currentPrime primeIndex fullRange rule: shrinkLoop.induct)
  case (1 L currentPrime primeIndex fullRange)
  show ?case
  proof (cases "currentPrime \<le> L")
    case False
    then show ?thesis by (subst shrinkLoop.simps) simp
  next
    case True
    define fullRange2 where "fullRange2 = fullRange * of_nat (currentPrime - 1) div of_nat currentPrime"
    have le: "unat fullRange2 \<le> unat fullRange"
      unfolding fullRange2_def by (rule shrink_step_le)
    show ?thesis
    proof (cases "primeIndex + 1 \<ge> length trialDivisionPrimes")
      case True
      with \<open>currentPrime \<le> L\<close> le show ?thesis
        by (subst shrinkLoop.simps) (simp add: Let_def fullRange2_def)
    next
      case False
      from "1.IH" [OF \<open>currentPrime \<le> L\<close> refl refl refl False]
      have "unat (fst (shrinkLoop L (trialDivisionPrimes ! (primeIndex + 1)) (primeIndex + 1) fullRange2))
              \<le> unat fullRange2"
        by (simp add: fullRange2_def)
      with le False \<open>currentPrime \<le> L\<close> show ?thesis
        by (subst shrinkLoop.simps) (simp add: Let_def fullRange2_def)
    qed
  qed
qed

lemma fullRangeOf_le:
  "unat (fullRangeOf L fullMinBase fullMaxBase) \<le> unat (fullMaxBase + 1 - fullMinBase)"
  using shrinkLoop_le [of L 2 0 "fullMaxBase + 1 - fullMinBase"]
  by (cases "shrinkLoop L 2 0 (fullMaxBase + 1 - fullMinBase)")
     (simp add: fullRangeOf_def shrunkRange_def)

text \<open>
  C3, as stated, fails: the node ranges are cut from the shrunk \<^verbatim>\<open>fullRange\<close>, not from
  \<^verbatim>\<open>fullMaxBase + 1 - fullMinBase\<close>. For 20 bits the full bounds are 257 and 2047; the
  1791 values shrink to 233, four nodes get 59 each, and the node ranges end at 493: the
  value 2047 is in none of them, even with both ends of every range included.
\<close>

theorem node_ranges_miss_full_range:
  "(257 :: 64 word) \<le> 2047 \<and> (1 :: nat) \<le> 4
   \<and> fullMinBaseOf 20 = Some 257 \<and> fullMaxBaseOf 20 = Some 2047
   \<and> pickTrialDivisionLevel 20 = Some 59
   \<and> fullRangeOf 59 (257 :: 64 word) 2047 = 233
   \<and> map (nodeBoundsOf (257 :: 64 word) 233 4) [0, 1, 2, 3]
       = [(257, 316), (316, 375), (375, 434), (434, 493)]
   \<and> \<not> coveredByNodes 59 (257 :: 64 word) 2047 4 2047"
proof -
  have range: "fullRangeOf 59 (257 :: 64 word) 2047 = 233"
    by (simp add: partition_defs)
  have bounds: "map (nodeBoundsOf (257 :: 64 word) 233 4) [0, 1, 2, 3]
       = [(257, 316), (316, 375), (375, 434), (434, 493)]"
    by (simp add: nodeBoundsOf_def nodeRangeOf_def nodeMinOf_def nodeMaxOf_def)
  have "\<not> coveredByNodes 59 (257 :: 64 word) 2047 4 2047"
    by (simp add: coveredByNodes_def range upt_0_4 inNode_def nodeBoundsOf_def nodeRangeOf_def
        nodeMinOf_def nodeMaxOf_def)
  with range bounds show ?thesis
    by (simp add: fullMinBaseOf_def fullMaxBaseOf_def primeBitsOf_def primeDict_def
        pickTrialDivisionLevel_def)
qed

text \<open>
  C3, amended. For \<open>nodeCount \<ge> 1\<close> and without overflow of \<^verbatim>\<open>bitCapInt\<close>, the node ranges
  \<open>[nodeMin, nodeMax)\<close> of the nodes below \<open>nodeCount\<close> lie end to end (each \<^verbatim>\<open>nodeMax\<close> is
  the next \<^verbatim>\<open>nodeMin\<close>, so the closed ranges share exactly that point) and their union is
  \<open>[fullMinBase, fullMinBase + nodeRange * nodeCount)\<close>. That is at least the shrunk
  \<^verbatim>\<open>fullRange\<close> and less than \<open>nodeCount\<close> more; the shrunk \<^verbatim>\<open>fullRange\<close> never exceeds
  \<^verbatim>\<open>fullMaxBase + 1 - fullMinBase\<close>. The nodes cover the shrunk range from \<^verbatim>\<open>fullMinBase\<close>
  on without gaps, not \<open>[fullMinBase, fullMaxBase]\<close>.
\<close>

theorem node_ranges_cover_shrunk_range:
  fixes fullMinBase fullMaxBase :: "'a::len word" and L nodeCount :: nat
  defines "fullRange \<equiv> fullRangeOf L fullMinBase fullMaxBase"
  defines "nodeRange \<equiv> nodeRangeOf fullRange nodeCount"
  assumes "1 \<le> nodeCount"
    and "unat fullRange + nodeCount < 2 ^ LENGTH('a)"
    and "unat fullMinBase + unat nodeRange * nodeCount < 2 ^ LENGTH('a)"
  shows "(\<Union>nodeId<nodeCount.
            {unat (fst (nodeBoundsOf fullMinBase fullRange nodeCount nodeId)) ..<
             unat (snd (nodeBoundsOf fullMinBase fullRange nodeCount nodeId))})
           = {unat fullMinBase ..< unat fullMinBase + unat nodeRange * nodeCount}
         \<and> unat fullRange \<le> unat nodeRange * nodeCount
         \<and> unat nodeRange * nodeCount < unat fullRange + nodeCount
         \<and> unat fullRange \<le> unat (fullMaxBase + 1 - fullMinBase)
         \<and> (\<forall>nodeId. snd (nodeBoundsOf fullMinBase fullRange nodeCount nodeId)
               = fst (nodeBoundsOf fullMinBase fullRange nodeCount (nodeId + 1)))"
proof -
  have nr: "unat nodeRange = (unat fullRange + nodeCount - 1) div nodeCount"
    unfolding nodeRange_def using assms(3,4) by (rule unat_nodeRangeOf)
  have nc: "nodeCount < 2 ^ LENGTH('a)"
    using assms(4) by simp
  have mins: "unat (nodeMinOf fullMinBase nodeRange nodeId) = unat fullMinBase + unat nodeRange * nodeId"
    if "nodeId \<le> nodeCount" for nodeId
  proof (rule unat_nodeMinOf)
    have "unat nodeRange * nodeId \<le> unat nodeRange * nodeCount"
      using that by (rule mult_le_mono2)
    with assms(5) show "unat fullMinBase + unat nodeRange * nodeId < 2 ^ LENGTH('a)"
      by linarith
    from that nc show "nodeId < 2 ^ LENGTH('a)"
      by simp
  qed
  have "(\<Union>nodeId<nodeCount.
            {unat (fst (nodeBoundsOf fullMinBase fullRange nodeCount nodeId)) ..<
             unat (snd (nodeBoundsOf fullMinBase fullRange nodeCount nodeId))})
        = (\<Union>nodeId<nodeCount.
            {unat fullMinBase + unat nodeRange * nodeId ..< unat fullMinBase + unat nodeRange * (nodeId + 1)})"
    by (rule SUP_cong)
       (simp_all add: nodeBoundsOf_def Let_def nodeMax_is_next_nodeMin mins flip: nodeRange_def)
  also have "\<dots> = {unat fullMinBase ..< unat fullMinBase + unat nodeRange * nodeCount}"
    by (rule union_blocks)
  finally have cover: "(\<Union>nodeId<nodeCount.
            {unat (fst (nodeBoundsOf fullMinBase fullRange nodeCount nodeId)) ..<
             unat (snd (nodeBoundsOf fullMinBase fullRange nodeCount nodeId))})
           = {unat fullMinBase ..< unat fullMinBase + unat nodeRange * nodeCount}" .
  have lo: "unat fullRange \<le> unat nodeRange * nodeCount"
    and hi: "unat nodeRange * nodeCount < unat fullRange + nodeCount"
    unfolding nr using ceiling_bounds [OF assms(3), of "unat fullRange"] by simp_all
  have le: "unat fullRange \<le> unat (fullMaxBase + 1 - fullMinBase)"
    unfolding fullRange_def by (rule fullRangeOf_le)
  have adj: "\<forall>nodeId. snd (nodeBoundsOf fullMinBase fullRange nodeCount nodeId)
               = fst (nodeBoundsOf fullMinBase fullRange nodeCount (nodeId + 1))"
    by (simp add: nodeBoundsOf_def Let_def nodeMax_is_next_nodeMin)
  from cover lo hi le adj show ?thesis
    by blast
qed

theorem node_ranges_cover_shrunk_range_witness:
  "(1 :: nat) \<le> 4
   \<and> unat (fullRangeOf 59 (257 :: 64 word) 2047) + 4 < 2 ^ LENGTH(64)
   \<and> unat (257 :: 64 word) + unat (nodeRangeOf (fullRangeOf 59 (257 :: 64 word) 2047) 4) * 4
         < 2 ^ LENGTH(64)
   \<and> (\<Union>nodeId<4.
         {unat (fst (nodeBoundsOf (257 :: 64 word) (fullRangeOf 59 257 2047) 4 nodeId)) ..<
          unat (snd (nodeBoundsOf (257 :: 64 word) (fullRangeOf 59 257 2047) 4 nodeId))})
       = {257 ..< 493}"
proof -
  have range: "fullRangeOf 59 (257 :: 64 word) 2047 = 233"
    by (simp add: partition_defs)
  have nodeRange: "nodeRangeOf (233 :: 64 word) 4 = 59"
    by (simp add: nodeRangeOf_def)
  have h1: "(1 :: nat) \<le> 4"
    by simp
  have h2: "unat (fullRangeOf 59 (257 :: 64 word) 2047) + 4 < 2 ^ LENGTH(64)"
    by (simp add: range)
  have h3: "unat (257 :: 64 word) + unat (nodeRangeOf (fullRangeOf 59 (257 :: 64 word) 2047) 4) * 4
      < 2 ^ LENGTH(64)"
    by (simp add: range nodeRange)
  from node_ranges_cover_shrunk_range [OF h1 h2 h3]
  have "(\<Union>nodeId<4.
         {unat (fst (nodeBoundsOf (257 :: 64 word) (fullRangeOf 59 257 2047) 4 nodeId)) ..<
          unat (snd (nodeBoundsOf (257 :: 64 word) (fullRangeOf 59 257 2047) 4 nodeId))})
       = {unat (257 :: 64 word) ..<
          unat (257 :: 64 word) + unat (nodeRangeOf (fullRangeOf 59 (257 :: 64 word) 2047) 4) * 4}"
    by blast
  then have "(\<Union>nodeId<4.
         {unat (fst (nodeBoundsOf (257 :: 64 word) (fullRangeOf 59 257 2047) 4 nodeId)) ..<
          unat (snd (nodeBoundsOf (257 :: 64 word) (fullRangeOf 59 257 2047) 4 nodeId))})
       = {257 ..< 493}"
    by (simp add: range nodeRange)
  with h1 h2 h3 show ?thesis
    by blast
qed

lemma threadRange_word:
  "threadRangeOf cpuCount nodeMin (nodeMaxOf nodeMin nodeRange)
     = (nodeRange + 1 + of_nat cpuCount) div of_nat cpuCount"
  by (simp add: threadRangeOf_def nodeMaxOf_def algebra_simps)

lemma unat_sum3:
  fixes nodeRange :: "'a::len word"
  assumes "unat nodeRange + cpuCount + 1 < 2 ^ LENGTH('a)"
  shows "unat (nodeRange + 1 + of_nat cpuCount) = unat nodeRange + 1 + cpuCount"
proof -
  have c: "unat (of_nat cpuCount :: 'a word) = cpuCount"
    using assms by (simp add: unat_of_nat)
  have "unat (nodeRange + 1) = unat nodeRange + 1"
    using assms by (simp add: unat_word_ariths)
  then show ?thesis
    using assms c by (simp add: unat_word_ariths)
qed

text \<open>
  C5, as stated, fails: \<^verbatim>\<open>(cpuCount + nodeMax - (nodeMin - 1U)) / cpuCount\<close> counts the node
  range with both ends and adds a whole \<^verbatim>\<open>cpuCount\<close> before dividing. For a node range of 59
  from 257 and 4 hardware threads it is 16, where the ceiling of \<open>59 / 4\<close> is 15.
\<close>

theorem threadRange_not_ceiling:
  "nodeMaxOf (257 :: 64 word) 59 = 316
   \<and> threadRangeOf 4 (257 :: 64 word) 316 = 16
   \<and> ((59 :: 64 word) + 4 - 1) div 4 = 15
   \<and> threadRangeOf 4 (257 :: 64 word) (nodeMaxOf 257 59) \<noteq> (59 + of_nat 4 - 1) div of_nat 4"
  by (simp add: nodeMaxOf_def threadRangeOf_def)

text \<open>
  C5, amended. For \<open>cpuCount \<ge> 1\<close> and without overflow of \<^verbatim>\<open>bitCapInt\<close>, the thread range
  is \<open>(nodeRange + 1) div cpuCount + 1\<close>: at least the ceiling of
  \<open>nodeRange / cpuCount\<close>, and at most 2 more.
\<close>

theorem threadRange_value:
  fixes nodeMin nodeRange :: "'a::len word"
  assumes "1 \<le> cpuCount" and "unat nodeRange + cpuCount + 1 < 2 ^ LENGTH('a)"
  shows "unat (threadRangeOf cpuCount nodeMin (nodeMaxOf nodeMin nodeRange))
           = (unat nodeRange + 1) div cpuCount + 1
         \<and> (unat nodeRange + cpuCount - 1) div cpuCount
           \<le> unat (threadRangeOf cpuCount nodeMin (nodeMaxOf nodeMin nodeRange))
         \<and> unat (threadRangeOf cpuCount nodeMin (nodeMaxOf nodeMin nodeRange))
           \<le> (unat nodeRange + cpuCount - 1) div cpuCount + 2"
proof -
  have c: "unat (of_nat cpuCount :: 'a word) = cpuCount"
    using assms by (simp add: unat_of_nat)
  have "unat (threadRangeOf cpuCount nodeMin (nodeMaxOf nodeMin nodeRange))
          = (unat nodeRange + 1 + cpuCount) div cpuCount"
    by (simp add: threadRange_word unat_div unat_sum3 [OF assms(2)] c)
  also have "\<dots> = (unat nodeRange + 1) div cpuCount + 1"
    using assms(1) div_add_self2 [of cpuCount "unat nodeRange + 1"] by simp
  finally have eq: "unat (threadRangeOf cpuCount nodeMin (nodeMaxOf nodeMin nodeRange))
          = (unat nodeRange + 1) div cpuCount + 1" .
  have "(unat nodeRange + cpuCount - 1) div cpuCount \<le> (unat nodeRange + 1 + cpuCount) div cpuCount"
    by (rule div_le_mono) simp
  also have "\<dots> = (unat nodeRange + 1) div cpuCount + 1"
    using assms(1) div_add_self2 [of cpuCount "unat nodeRange + 1"] by simp
  finally have lo: "(unat nodeRange + cpuCount - 1) div cpuCount \<le> (unat nodeRange + 1) div cpuCount + 1" .
  have "unat nodeRange + 1 \<le> (unat nodeRange + cpuCount - 1) + cpuCount"
    using assms(1) by simp
  then have "(unat nodeRange + 1) div cpuCount \<le> ((unat nodeRange + cpuCount - 1) + cpuCount) div cpuCount"
    by (rule div_le_mono)
  also have "\<dots> = (unat nodeRange + cpuCount - 1) div cpuCount + 1"
    using assms(1) div_add_self2 [of cpuCount "unat nodeRange + cpuCount - 1"] by simp
  finally have hi: "(unat nodeRange + 1) div cpuCount \<le> (unat nodeRange + cpuCount - 1) div cpuCount + 1" .
  from eq lo hi show ?thesis by simp
qed

theorem threadRange_value_witness:
  "(1 :: nat) \<le> 4 \<and> unat (59 :: 64 word) + 4 + 1 < 2 ^ LENGTH(64)
   \<and> unat (threadRangeOf 4 (257 :: 64 word) (nodeMaxOf 257 59)) = (59 + 1) div 4 + 1"
proof -
  have h1: "(1 :: nat) \<le> 4"
    by simp
  have h2: "unat (59 :: 64 word) + 4 + 1 < 2 ^ LENGTH(64)"
    by simp
  from threadRange_value [OF h1 h2, of 257] h1 h2 show ?thesis
    by simp
qed

subsection \<open>Workers and the termination flag\<close>

lemma runSchedule_append:
  "runSchedule toFactor primeIndex bounds (xs @ ys) s
     = runSchedule toFactor primeIndex bounds ys (runSchedule toFactor primeIndex bounds xs s)"
  by (induction xs arbitrary: s) auto

lemma workerStep_miss:
  assumes "t < length (workers s)" "t < length bounds" "workers s ! t = Batch k" "k < BASE_TRIALS"
    and "admissibleFor (bounds ! t) draws"
    and "trial toFactor primeIndex (bounds ! t) draws = Inr None"
  shows "workerStep toFactor primeIndex bounds t draws s = s\<lparr>workers := (workers s)[t := Batch (k + 1)]\<rparr>"
  using assms by (simp add: workerStep_def)

lemma run_misses:
  assumes "t < length bounds"
    and "admissibleFor (bounds ! t) draws"
    and "trial toFactor primeIndex (bounds ! t) draws = Inr None"
  shows "t < length (workers s) \<Longrightarrow> workers s ! t = Batch k \<Longrightarrow> k + n \<le> BASE_TRIALS \<Longrightarrow>
    runSchedule toFactor primeIndex bounds (replicate n (t, draws)) s
      = s\<lparr>workers := (workers s)[t := Batch (k + n)]\<rparr>"
proof (induction n arbitrary: s k)
  case 0
  then have "(workers s)[t := Batch k] = workers s"
    by (metis list_update_id)
  then show ?case
    by simp
next
  case (Suc n)
  let ?s1 = "s\<lparr>workers := (workers s)[t := Batch (k + 1)]\<rparr>"
  from Suc.prems have step: "workerStep toFactor primeIndex bounds t draws s = ?s1"
    using assms by (intro workerStep_miss) simp_all
  have "runSchedule toFactor primeIndex bounds (replicate n (t, draws)) ?s1
          = ?s1\<lparr>workers := (workers ?s1)[t := Batch (k + 1 + n)]\<rparr>"
    using Suc.prems by (intro Suc.IH) simp_all
  with step show ?case
    by simp
qed

lemma inv_initial: "runInvariant (initialRun cpuCount)"
  by (simp add: runInvariant_def initialRun_def)

lemma inv_step:
  assumes "runInvariant s"
  shows "runInvariant (workerStep toFactor primeIndex bounds t draws s)"
proof (cases "t \<ge> length (workers s) \<or> t \<ge> length bounds")
  case True
  with assms show ?thesis by (simp add: workerStep_def)
next
  case False
  then have t: "t < length (workers s)" "t < length bounds" by simp_all
  show ?thesis
  proof (cases "workers s ! t")
    case (Batch k)
    with assms t have notrep: "t \<notin> fst ` set (reports s)"
      by (auto simp: runInvariant_def)
    then have keep: "\<forall>r \<in> set (reports s). fst r \<noteq> t"
      by auto
    show ?thesis
      using assms t Batch keep
      by (auto simp: runInvariant_def workerStep_def nth_list_update split: sum.splits option.splits prod.splits)
  next
    case (Reporting f1 f2)
    with assms t have notrep: "t \<notin> fst ` set (reports s)"
      by (auto simp: runInvariant_def)
    then have keep: "\<forall>r \<in> set (reports s). fst r \<noteq> t"
      by auto
    have fin: "isFinished s"
      using assms t Reporting by (auto simp: runInvariant_def)
    show ?thesis
      using assms t Reporting keep fin notrep
      by (auto simp: runInvariant_def workerStep_def nth_list_update)
  next
    case Returned
    with assms t show ?thesis by (simp add: workerStep_def)
  next
    case (Failed e)
    with assms t show ?thesis by (simp add: workerStep_def)
  qed
qed

lemma inv_run: "runInvariant s \<Longrightarrow> runInvariant (runSchedule toFactor primeIndex bounds schedule s)"
proof (induction schedule arbitrary: s)
  case Nil
  then show ?case by simp
next
  case (Cons a schedule)
  obtain u draws where a: "a = (u, draws)" by (cases a)
  from Cons.prems have "runInvariant (workerStep toFactor primeIndex bounds u draws s)"
    by (rule inv_step)
  then show ?case
    unfolding a by (simp add: Cons.IH)
qed

lemma returned_step:
  assumes "t < length (workers s)" "workers s ! t = Returned"
  shows "workers (workerStep toFactor primeIndex bounds u draws s) ! t = Returned
         \<and> length (workers (workerStep toFactor primeIndex bounds u draws s)) = length (workers s)
         \<and> reportsOf t (workerStep toFactor primeIndex bounds u draws s) = reportsOf t s"
  using assms
  by (cases "u = t")
     (auto simp: workerStep_def reportsOf_def nth_list_update
           split: position.splits sum.splits option.splits prod.splits)

lemma returned_run:
  "t < length (workers s) \<Longrightarrow> workers s ! t = Returned \<Longrightarrow>
     reportsOf t (runSchedule toFactor primeIndex bounds schedule s) = reportsOf t s"
proof (induction schedule arbitrary: s)
  case Nil
  then show ?case by simp
next
  case (Cons a schedule)
  obtain u draws where a: "a = (u, draws)" by (cases a)
  let ?s1 = "workerStep toFactor primeIndex bounds u draws s"
  from returned_step [OF Cons.prems, of toFactor primeIndex bounds u draws]
  have 1: "workers ?s1 ! t = Returned" and 2: "length (workers ?s1) = length (workers s)"
    and 3: "reportsOf t ?s1 = reportsOf t s"
    by simp_all
  from 2 Cons.prems(1) have "t < length (workers ?s1)"
    by simp
  from Cons.IH [OF this 1] 3 show ?case
    unfolding a by simp
qed

lemma filter_eq_distinct: "distinct xs \<Longrightarrow> length (filter (\<lambda>x. x = t) xs) \<le> 1"
  by (induction xs) (auto simp: filter_empty_conv)

lemma reportsOf_length: "distinct (map fst (reports s)) \<Longrightarrow> length (reportsOf t s) \<le> 1"
proof -
  assume d: "distinct (map fst (reports s))"
  have "length (filter (\<lambda>r. fst r = t) (reports s)) = length (filter (\<lambda>x. x = t) (map fst (reports s)))"
    by (simp add: filter_map comp_def)
  also have "\<dots> \<le> 1"
    using d by (rule filter_eq_distinct)
  finally show ?thesis by (simp add: reportsOf_def)
qed

text \<open>
  C7, as stated, fails: the flag is read between batches only, and a successful trial
  reports without reading it. For \<open>143\<close> with 16 hardware threads: worker 0 uses up its
  batch, worker 9 succeeds and sets the flag, worker 0 observes the flag and returns; then
  worker 10, in the middle of its batch, succeeds as well, and both 9 and 10 report.
\<close>

theorem two_reports_after_flag_observed:
  "mainBody (143 :: 64 word) 8 1 0 16 (replicate BASE_TRIALS (0, [0]) @ [(9, [11]), (0, [])])
     = Some (Inr \<lparr>isFinished = True,
          workers = [Returned, Batch 0, Batch 0, Batch 0, Batch 0, Batch 0, Batch 0, Batch 0,
                     Batch 0, Reporting 143 1, Batch 0, Batch 0, Batch 0, Batch 0, Batch 0, Batch 0],
          reports = []\<rparr>)
   \<and> mainBody (143 :: 64 word) 8 1 0 16
        (replicate BASE_TRIALS (0, [0]) @ [(9, [11]), (0, [])] @ [(10, [11]), (9, []), (10, [])])
     = Some (Inr \<lparr>isFinished = True,
          workers = [Returned, Batch 0, Batch 0, Batch 0, Batch 0, Batch 0, Batch 0, Batch 0,
                     Batch 0, Returned, Returned, Batch 0, Batch 0, Batch 0, Batch 0, Batch 0],
          reports = [(9, 143, 1), (10, 143, 1)]\<rparr>)"
proof -
  let ?bounds = "[\<lparr>workerMin = 3 :: 64 word, workerMax = 6\<rparr>, \<lparr>workerMin = 3, workerMax = 8\<rparr>,
      \<lparr>workerMin = 3, workerMax = 8\<rparr>, \<lparr>workerMin = 3, workerMax = 10\<rparr>,
      \<lparr>workerMin = 3, workerMax = 10\<rparr>, \<lparr>workerMin = 3, workerMax = 12\<rparr>,
      \<lparr>workerMin = 3, workerMax = 12\<rparr>, \<lparr>workerMin = 3, workerMax = 14\<rparr>,
      \<lparr>workerMin = 3, workerMax = 14\<rparr>, \<lparr>workerMin = 3, workerMax = 16\<rparr>,
      \<lparr>workerMin = 3, workerMax = 16\<rparr>, \<lparr>workerMin = 3, workerMax = 18\<rparr>,
      \<lparr>workerMin = 3, workerMax = 18\<rparr>, \<lparr>workerMin = 3, workerMax = 20\<rparr>,
      \<lparr>workerMin = 3, workerMax = 20\<rparr>, \<lparr>workerMin = 3, workerMax = 22\<rparr>]"
  let ?start = "\<lparr>isFinished = False,
      workers = [Batch 0, Batch 0, Batch 0, Batch 0, Batch 0, Batch 0, Batch 0, Batch 0,
                 Batch 0, Batch 0, Batch 0, Batch 0, Batch 0, Batch 0, Batch 0, Batch 0 :: 64 word position],
      reports = []\<rparr>"
  have "runSchedule 143 17 ?bounds (replicate BASE_TRIALS (0, [0])) ?start
          = ?start\<lparr>workers := (workers ?start)[0 := Batch (0 + BASE_TRIALS)]\<rparr>"
    by (rule run_misses) (simp_all add: miss_143)
  then have batch: "runSchedule 143 17 ?bounds (replicate BASE_TRIALS (0, [0])) ?start
          = \<lparr>isFinished = False,
             workers = [Batch BASE_TRIALS, Batch 0, Batch 0, Batch 0, Batch 0, Batch 0, Batch 0, Batch 0,
                 Batch 0, Batch 0, Batch 0, Batch 0, Batch 0, Batch 0, Batch 0, Batch 0],
             reports = []\<rparr>"
    by simp
  have observed: "runSchedule 143 17 ?bounds (replicate BASE_TRIALS (0, [0]) @ [(9, [11]), (0, [])]) ?start
          = \<lparr>isFinished = True,
          workers = [Returned, Batch 0, Batch 0, Batch 0, Batch 0, Batch 0, Batch 0, Batch 0,
                     Batch 0, Reporting 143 1, Batch 0, Batch 0, Batch 0, Batch 0, Batch 0, Batch 0],
          reports = []\<rparr>"
    by (simp add: runSchedule_append batch workerStep_def hit_143 BASE_TRIALS_pos)
  have "runSchedule 143 17 ?bounds
          (replicate BASE_TRIALS (0, [0]) @ [(9, [11]), (0, [])] @ [(10, [11]), (9, []), (10, [])]) ?start
          = \<lparr>isFinished = True,
          workers = [Returned, Batch 0, Batch 0, Batch 0, Batch 0, Batch 0, Batch 0, Batch 0,
                     Batch 0, Returned, Returned, Batch 0, Batch 0, Batch 0, Batch 0, Batch 0],
          reports = [(9, 143, 1), (10, 143, 1)]\<rparr>"
    unfolding append_assoc [symmetric] runSchedule_append [of _ _ _ "_ @ _" "[_, _, _]"] observed
    by (simp add: workerStep_def hit_143 BASE_TRIALS_pos)
  with observed show ?thesis
    by (simp only: One_nat_def mainBody_143 simp_thms)
qed

lemma batch_no_reports:
  assumes "runInvariant s" and "t < length (workers s)" and "workers s ! t = Batch k"
  shows "reportsOf t s = []"
proof -
  have "fst r \<noteq> t" if "r \<in> set (reports s)" for r
  proof
    assume "fst r = t"
    with assms(1) that have "workers s ! t = Returned"
      by (auto simp: runInvariant_def)
    with assms(3) show False
      by simp
  qed
  then show ?thesis
    by (simp add: reportsOf_def filter_empty_conv)
qed

lemma flag_test_step:
  assumes "t < length (workers s)" and "t < length bounds" and "workers s ! t = Batch BASE_TRIALS"
  shows "workerStep toFactor primeIndex bounds t draws s
           = (if isFinished s then s\<lparr>workers := (workers s)[t := Returned]\<rparr>
              else s\<lparr>workers := (workers s)[t := Batch 0]\<rparr>)"
  using assms by (simp add: workerStep_def)

lemma flag_stays_step:
  "isFinished s \<Longrightarrow> isFinished (workerStep toFactor primeIndex bounds t draws s)"
  by (simp add: workerStep_def split: position.splits sum.splits option.splits prod.splits)

lemma flag_stays_run:
  "isFinished s \<Longrightarrow> isFinished (runSchedule toFactor primeIndex bounds schedule s)"
proof (induction schedule arbitrary: s)
  case Nil
  then show ?case by simp
next
  case (Cons a schedule)
  obtain u draws where a: "a = (u, draws)" by (cases a)
  from Cons.prems have "isFinished (workerStep toFactor primeIndex bounds u draws s)"
    by (rule flag_stays_step)
  then show ?case
    unfolding a by (simp add: Cons.IH)
qed

text \<open>
  \<open>267 = 3 \<times> 89\<close> on one node with two hardware threads: 9 bits, level 59, full bounds
  9 and 63, and the workers \<open>[3, 10)\<close> and \<open>[3, 12)\<close>. The draw 0 becomes the base 75,
  which does not divide 267; the draw 3 becomes the base 89, which does.
\<close>

lemma upt_0_2: "[0..<2] = [0, 1 :: nat]"
  by code_simp

lemma setup_267:
  "qubitCountOf 267 = 9" "pickTrialDivisionLevel 9 = Some 59"
  "fullMinBaseOf 9 = Some 9" "fullMaxBaseOf 9 = Some 63"
  by (simp_all add: qubitCountOf_def shiftCount.simps pickTrialDivisionLevel_def
      fullMinBaseOf_def fullMaxBaseOf_def primeBitsOf_def primeDict_def)

lemma workers_267:
  "mainBodyWorkers 59 (9 :: 64 word) 63 (Suc 0) 0 2
     = Inr [\<lparr>workerMin = 3, workerMax = 10\<rparr>, \<lparr>workerMin = 3, workerMax = 12\<rparr>]"
  using upt_0_2 by (simp add: partition_defs)

lemma trials_267:
  "admissibleFor \<lparr>workerMin = 3 :: 64 word, workerMax = 10\<rparr> [0]"
  "trial (267 :: 64 word) 17 \<lparr>workerMin = 3, workerMax = 10\<rparr> [0] = Inr None"
  "admissibleFor \<lparr>workerMin = 3 :: 64 word, workerMax = 12\<rparr> [3]"
  "trial (267 :: 64 word) 17 \<lparr>workerMin = 3, workerMax = 12\<rparr> [3] = Inr (Some (89, 3))"
  "admissibleFor \<lparr>workerMin = 3 :: 64 word, workerMax = 10\<rparr> [3]"
  "trial (267 :: 64 word) 17 \<lparr>workerMin = 3, workerMax = 10\<rparr> [3] = Inr (Some (89, 3))"
  by (simp_all add: trial_def tryBase_def sampler_defs)

lemma run_267:
  "runSchedule (267 :: 64 word) 17 [\<lparr>workerMin = 3, workerMax = 10\<rparr>, \<lparr>workerMin = 3, workerMax = 12\<rparr>]
     (replicate BASE_TRIALS (0, [0]) @ [(1, [3])]) (initialRun 2)
     = \<lparr>isFinished = True, workers = [Batch BASE_TRIALS, Reporting 89 3], reports = []\<rparr>"
proof -
  let ?bounds = "[\<lparr>workerMin = 3 :: 64 word, workerMax = 10\<rparr>, \<lparr>workerMin = 3, workerMax = 12\<rparr>]"
  let ?start = "\<lparr>isFinished = False, workers = [Batch 0, Batch 0 :: 64 word position], reports = []\<rparr>"
  have start: "initialRun 2 = ?start"
    by (simp add: initialRun_def eval_nat_numeral)
  have "runSchedule 267 17 ?bounds (replicate BASE_TRIALS (0, [0])) ?start
          = ?start\<lparr>workers := (workers ?start)[0 := Batch (0 + BASE_TRIALS)]\<rparr>"
    by (rule run_misses) (simp_all add: trials_267)
  then have "runSchedule 267 17 ?bounds (replicate BASE_TRIALS (0, [0])) ?start
          = \<lparr>isFinished = False, workers = [Batch BASE_TRIALS, Batch 0], reports = []\<rparr>"
    by simp
  then show ?thesis
    unfolding start by (simp add: runSchedule_append workerStep_def trials_267 BASE_TRIALS_pos)
qed

text \<open>
  C7, amended. In every run each worker reports at most one success; a report implies
  that the flag is set; the flag, once set, stays set. A worker that reads the flag
  between two batches returns at once and without a report when the flag is set, and
  reports nothing in the rest of the run; when the flag is not set it starts its next
  batch. A worker that has returned reports nothing afterwards. Workers that are in the
  middle of a batch when the flag is set can still report, one success each.
\<close>

theorem worker_reports_at_most_once:
  fixes toFactor :: "'a::len word" and primeIndex cpuCount t :: nat
    and bounds :: "'a word threadBounds list" and schedule more :: "(nat \<times> 'a word list) list"
    and draws :: "'a word list"
  defines "s \<equiv> runSchedule toFactor primeIndex bounds schedule (initialRun cpuCount)"
  defines "s1 \<equiv> workerStep toFactor primeIndex bounds t draws s"
  shows "length (reportsOf t s) \<le> 1
         \<and> (reports s \<noteq> [] \<longrightarrow> isFinished s)
         \<and> (isFinished s \<longrightarrow> isFinished (runSchedule toFactor primeIndex bounds more s))
         \<and> (t < length (workers s) \<and> t < length bounds \<and> workers s ! t = Batch BASE_TRIALS
              \<and> isFinished s \<longrightarrow>
              workers s1 ! t = Returned \<and> reports s1 = reports s
              \<and> reportsOf t (runSchedule toFactor primeIndex bounds more s1) = [])
         \<and> (t < length (workers s) \<and> t < length bounds \<and> workers s ! t = Batch BASE_TRIALS
              \<and> \<not> isFinished s \<longrightarrow>
              workers s1 ! t = Batch 0 \<and> reports s1 = reports s)
         \<and> (t < length (workers s) \<and> workers s ! t = Returned \<longrightarrow>
              reportsOf t (runSchedule toFactor primeIndex bounds more s) = reportsOf t s)"
proof -
  have inv: "runInvariant s"
    unfolding s_def by (intro inv_run inv_initial)
  then have "distinct (map fst (reports s))" and flag: "reports s \<noteq> [] \<longrightarrow> isFinished s"
    by (simp_all add: runInvariant_def)
  then have once: "length (reportsOf t s) \<le> 1"
    by (intro reportsOf_length)
  have stays: "isFinished s \<longrightarrow> isFinished (runSchedule toFactor primeIndex bounds more s)"
    by (simp add: flag_stays_run)
  have observed: "workers s1 ! t = Returned \<and> reports s1 = reports s
      \<and> reportsOf t (runSchedule toFactor primeIndex bounds more s1) = []"
    if t: "t < length (workers s)" "t < length bounds" and at: "workers s ! t = Batch BASE_TRIALS"
      and set: "isFinished s"
  proof -
    have s1: "s1 = s\<lparr>workers := (workers s)[t := Returned]\<rparr>"
      unfolding s1_def using set by (simp add: flag_test_step [OF t at])
    then have ret: "workers s1 ! t = Returned" and len: "t < length (workers s1)"
      and same: "reports s1 = reports s"
      using t by simp_all
    have "reportsOf t s1 = reportsOf t s"
      using same by (simp add: reportsOf_def)
    also have "\<dots> = []"
      using inv t(1) at by (rule batch_no_reports)
    finally have "reportsOf t s1 = []" .
    with returned_run [OF len ret, of toFactor primeIndex bounds more] ret same show ?thesis
      by simp
  qed
  have continues: "workers s1 ! t = Batch 0 \<and> reports s1 = reports s"
    if t: "t < length (workers s)" "t < length bounds" and at: "workers s ! t = Batch BASE_TRIALS"
      and unset: "\<not> isFinished s"
  proof -
    have "s1 = s\<lparr>workers := (workers s)[t := Batch 0]\<rparr>"
      unfolding s1_def using unset by (simp add: flag_test_step [OF t at])
    then show ?thesis
      using t by simp
  qed
  have returned: "t < length (workers s) \<and> workers s ! t = Returned \<longrightarrow>
      reportsOf t (runSchedule toFactor primeIndex bounds more s) = reportsOf t s"
    by (simp add: returned_run)
  from once flag stays observed continues returned show ?thesis
    by blast
qed

theorem worker_reports_at_most_once_witness:
  "runSchedule (267 :: 64 word) 17 [\<lparr>workerMin = 3, workerMax = 10\<rparr>, \<lparr>workerMin = 3, workerMax = 12\<rparr>]
     (replicate BASE_TRIALS (0, [0]) @ [(1, [3])]) (initialRun 2)
     = \<lparr>isFinished = True, workers = [Batch BASE_TRIALS, Reporting 89 3], reports = []\<rparr>
   \<and> workerStep (267 :: 64 word) 17 [\<lparr>workerMin = 3, workerMax = 10\<rparr>, \<lparr>workerMin = 3, workerMax = 12\<rparr>] 0 []
       \<lparr>isFinished = True, workers = [Batch BASE_TRIALS, Reporting 89 3], reports = []\<rparr>
     = \<lparr>isFinished = True, workers = [Returned, Reporting 89 3], reports = []\<rparr>
   \<and> runSchedule (267 :: 64 word) 17 [\<lparr>workerMin = 3, workerMax = 10\<rparr>, \<lparr>workerMin = 3, workerMax = 12\<rparr>]
       [(0, [3]), (1, []), (0, [])]
       \<lparr>isFinished = True, workers = [Returned, Reporting 89 3], reports = []\<rparr>
     = \<lparr>isFinished = True, workers = [Returned, Returned], reports = [(1, 89, 3)]\<rparr>
   \<and> reportsOf 0 \<lparr>isFinished = True, workers = [Returned, Returned], reports = [(1, 89, 3 :: 64 word)]\<rparr> = []"
proof -
  let ?bounds = "[\<lparr>workerMin = 3 :: 64 word, workerMax = 10\<rparr>, \<lparr>workerMin = 3, workerMax = 12\<rparr>]"
  let ?s = "\<lparr>isFinished = True, workers = [Batch BASE_TRIALS, Reporting 89 3 :: 64 word position], reports = []\<rparr>"
  let ?s1 = "\<lparr>isFinished = True, workers = [Returned, Reporting 89 3 :: 64 word position], reports = []\<rparr>"
  let ?more = "[(0, [3]), (1, []), (0, [])] :: (nat \<times> 64 word list) list"
  have step: "workerStep 267 17 ?bounds 0 [] ?s = ?s1"
    by (simp add: workerStep_def)
  have rest: "runSchedule 267 17 ?bounds ?more ?s1
      = \<lparr>isFinished = True, workers = [Returned, Returned], reports = [(1, 89, 3)]\<rparr>"
    by (simp add: workerStep_def)
  have hyps: "0 < length (workers ?s) \<and> 0 < length ?bounds \<and> workers ?s ! 0 = Batch BASE_TRIALS
      \<and> isFinished ?s"
    by simp
  from worker_reports_at_most_once
    [of 0 "267 :: 64 word" 17 ?bounds "replicate BASE_TRIALS (0, [0]) @ [(1, [3])]" 2 ?more "[]",
     unfolded run_267 step rest] hyps
  have "reportsOf 0 \<lparr>isFinished = True, workers = [Returned, Returned], reports = [(1, 89, 3 :: 64 word)]\<rparr> = []"
    by blast
  with run_267 step rest show ?thesis
    by blast
qed

end
